theory Spec2Isabelle
  imports Main "HOL-Library.Word"
begin

section \<open>Python values shared by both decoders\<close>

text \<open>
  The repository holds two generations of the decoder: \<^verbatim>\<open>modules/fault/logfmt.py\<close>
  (sections, fault record and circular log) and the older \<^verbatim>\<open>modules/lwl/lwl.py\<close>
  (circular log only). Both are embedded here, function by function.

  A bytearray is a list of bytes; Python integers read from it are never negative, so
  they are naturals. An exception is a value: a function that can raise returns
  \<open>py_error + 'a\<close>, with \<open>Inl\<close> for the exception.
\<close>

type_synonym byte = "8 word"

datatype py_error =
  EOFError | IndexError | KeyError | UnboundLocalError | ValueError | TypeError

section \<open>logfmt.py: class Data, the byte readers\<close>

text \<open>
  \<^verbatim>\<open>Data.get_data(idx, num_bytes)\<close>: the for loop over \<^verbatim>\<open>range(num_bytes)\<close>.
  \<open>g_swab\<close> is the module global the function reads; \<open>self.data_len\<close> is the
  length of \<open>self.data_array\<close> (set so by \<^verbatim>\<open>read_data_file\<close>).
\<close>

fun get_data_loop :: "bool \<Rightarrow> byte list \<Rightarrow> nat \<Rightarrow> nat \<Rightarrow> nat \<Rightarrow> nat \<Rightarrow> py_error + nat" where
  "get_data_loop g_swab data_array 0 idx value shift = Inr value"
| "get_data_loop g_swab data_array (Suc n) idx value shift =
     (if idx \<ge> length data_array then Inl EOFError
      else if g_swab then
        get_data_loop g_swab data_array n (idx + 1)
          (push_bit 8 value + unat (data_array ! idx)) shift
      else
        get_data_loop g_swab data_array n (idx + 1)
          (value + push_bit shift (unat (data_array ! idx))) (shift + 8))"

definition get_data :: "bool \<Rightarrow> byte list \<Rightarrow> nat \<Rightarrow> nat \<Rightarrow> py_error + nat" where
  "get_data g_swab data_array idx num_bytes = get_data_loop g_swab data_array num_bytes idx 0 0"

text \<open>
  \<^verbatim>\<open>Data.get_data_circ(idx, num_bytes, buf_start_idx, buf_len, put_idx, first_get)\<close>.
  The two range checks come first; the loop raises EOFError when it stands on
  \<open>put_idx\<close> and this is not the first get. Indexing the bytearray past its end raises
  IndexError. \<open>first_get\<close> is a parameter and keeps its value through the loop.
\<close>

fun get_data_circ_loop ::
  "byte list \<Rightarrow> nat \<Rightarrow> nat \<Rightarrow> nat \<Rightarrow> bool \<Rightarrow> nat \<Rightarrow> nat \<Rightarrow> nat \<Rightarrow> py_error + (nat \<times> nat)" where
  "get_data_circ_loop data_array buf_start_idx buf_len put_idx first_get 0 value idx =
     Inr (value, idx)"
| "get_data_circ_loop data_array buf_start_idx buf_len put_idx first_get (Suc n) value idx =
     (if idx = put_idx \<and> \<not> first_get then Inl EOFError
      else if buf_start_idx + idx \<ge> length data_array then Inl IndexError
      else
        get_data_circ_loop data_array buf_start_idx buf_len put_idx first_get n
          (push_bit 8 value + unat (data_array ! (buf_start_idx + idx)))
          (if idx + 1 \<ge> buf_len then 0 else idx + 1))"

definition get_data_circ ::
  "byte list \<Rightarrow> nat \<Rightarrow> nat \<Rightarrow> nat \<Rightarrow> nat \<Rightarrow> nat \<Rightarrow> bool \<Rightarrow> py_error + (nat \<times> nat)" where
  "get_data_circ data_array idx num_bytes buf_start_idx buf_len put_idx first_get =
     (if idx \<ge> buf_len then Inl IndexError
      else if put_idx \<ge> buf_len then Inl IndexError
      else get_data_circ_loop data_array buf_start_idx buf_len put_idx first_get num_bytes 0 idx)"

text \<open>
  \<^verbatim>\<open>Data.get_bytes_left_circ\<close>: the same walk without reading, stopping (break) where
  the read would raise. It returns the bytes counted and the index reached.
\<close>

fun get_bytes_left_circ_loop :: "nat \<Rightarrow> nat \<Rightarrow> bool \<Rightarrow> nat \<Rightarrow> nat \<Rightarrow> nat \<Rightarrow> nat \<times> nat" where
  "get_bytes_left_circ_loop buf_len put_idx first_get 0 bytes_left idx = (bytes_left, idx)"
| "get_bytes_left_circ_loop buf_len put_idx first_get (Suc n) bytes_left idx =
     (if idx = put_idx \<and> \<not> first_get then (bytes_left, idx)
      else
        get_bytes_left_circ_loop buf_len put_idx first_get n (bytes_left + 1)
          (if idx + 1 \<ge> buf_len then 0 else idx + 1))"

definition get_bytes_left_circ ::
  "nat \<Rightarrow> nat \<Rightarrow> nat \<Rightarrow> nat \<Rightarrow> nat \<Rightarrow> bool \<Rightarrow> py_error + (nat \<times> nat)" where
  "get_bytes_left_circ idx num_to_check_for buf_start_idx buf_len put_idx first_get =
     (if idx \<ge> buf_len then Inl IndexError
      else if put_idx \<ge> buf_len then Inl IndexError
      else Inr (get_bytes_left_circ_loop buf_len put_idx first_get num_to_check_for 0 idx))"

section \<open>lwl.py: the byte reader\<close>

text \<open>
  \<^verbatim>\<open>get_data_bytes(data, idx, num_bytes, start_idx, first_get)\<close>: the buffer is the
  whole bytearray, and each byte is weighted by \<open>factor\<close>, which grows by 256 a byte.
\<close>

fun get_data_bytes_loop ::
  "byte list \<Rightarrow> nat \<Rightarrow> bool \<Rightarrow> nat \<Rightarrow> nat \<Rightarrow> nat \<Rightarrow> nat \<Rightarrow> py_error + (nat \<times> nat)" where
  "get_data_bytes_loop data start_idx first_get 0 d factor idx = Inr (d, idx)"
| "get_data_bytes_loop data start_idx first_get (Suc n) d factor idx =
     (if idx = start_idx \<and> \<not> first_get then Inl EOFError
      else if idx \<ge> length data then Inl IndexError
      else
        get_data_bytes_loop data start_idx first_get n
          (d + unat (data ! idx) * factor) (factor * 256)
          (if idx + 1 \<ge> length data then 0 else idx + 1))"

definition get_data_bytes ::
  "byte list \<Rightarrow> nat \<Rightarrow> nat \<Rightarrow> nat \<Rightarrow> bool \<Rightarrow> py_error + (nat \<times> nat)" where
  "get_data_bytes data idx num_bytes start_idx first_get =
     (if idx \<ge> length data then Inl IndexError
      else get_data_bytes_loop data start_idx first_get num_bytes 0 1 idx)"

section \<open>Byte orders, as the specification words them\<close>

text \<open>
  Big-endian: the most significant byte comes first. Little-endian: the least
  significant byte comes first. \<open>circ_bytes\<close> lists the \<open>n\<close> bytes of a circular
  buffer of \<open>buf_len\<close> bytes from position \<open>idx\<close> on, wrapping at the end.
\<close>

fun big_endian :: "nat list \<Rightarrow> nat" where
  "big_endian [] = 0"
| "big_endian (b # bs) = b * 256 ^ length bs + big_endian bs"

fun little_endian :: "nat list \<Rightarrow> nat" where
  "little_endian [] = 0"
| "little_endian (b # bs) = b + 256 * little_endian bs"

definition circ_bytes :: "byte list \<Rightarrow> nat \<Rightarrow> nat \<Rightarrow> nat \<Rightarrow> nat \<Rightarrow> nat list" where
  "circ_bytes data_array buf_start_idx buf_len idx n =
     map (\<lambda>k. unat (data_array ! (buf_start_idx + (idx + k) mod buf_len))) [0..<n]"


section \<open>Printed output\<close>

text \<open>
  Both programs report by \<^verbatim>\<open>print\<close>. The output is the list of lines printed, one
  constructor per print statement of the source, holding the values its format string
  is filled with:
  \<^item> \<open>Rule\<close>: \<^verbatim>\<open>print('=' * 80)\<close>; \<open>Text\<close>: a fixed title line;
  \<^item> \<open>Err_header idx data_len\<close>, \<open>Err_section_type idx\<close>,
    \<open>Err_section_len idx section_len data_len\<close>: the three errors of
    \<^verbatim>\<open>Data.process_data\<close>;
  \<^item> \<open>Err_lwl_size section_len\<close>, \<open>Err_buf_len buf_len\<close>, \<open>Err_put_idx\<close>: the three
    errors of \<^verbatim>\<open>LwlPrinter.pretty_print\<close>;
  \<^item> \<open>Field max_name_len name v\<close>: a fault field line;
  \<^item> \<open>Skipped_data\<close>, \<open>Unused_data\<close>: the two hex annotations, with the bytes listed;
  \<^item> \<open>Message\<close>: a decoded message, the string \<^verbatim>\<open>msg_meta.fmt % tuple(arg_values)\<close>;
  \<^item> \<open>Duplicate_id\<close>, \<open>Err_fmt_args\<close>, \<open>Err_num_arg_bytes\<close>, \<open>Err_no_base_id\<close>: the
    reports of the source scanners.
\<close>

datatype line =
    Rule
  | Text string
  | Err_header nat nat
  | Err_section_type nat
  | Err_section_len nat nat nat
  | Err_lwl_size nat
  | Err_buf_len nat
  | Err_put_idx
  | Field nat string nat
  | Skipped_data "nat list"
  | Message string
  | Unused_data "nat list"
  | Duplicate_id string nat nat string string nat string
  | Err_fmt_args string nat string string
  | Err_num_arg_bytes string nat nat nat string
  | Err_no_base_id string nat

section \<open>The message catalog (class LwlMsg, class LwlMsgSet; the same in both files)\<close>

text \<open>
  \<open>arg_bytes\<close> is a string with one decimal digit per argument, its width in bytes;
  the source converts each character with \<^verbatim>\<open>int(d)\<close>, which raises ValueError on a
  character that is not a digit.
\<close>

definition py_int_digit :: "char \<Rightarrow> py_error + nat" where
  "py_int_digit c =
     (let n = (of_char c :: nat) in if 48 \<le> n \<and> n \<le> 57 then Inr (n - 48) else Inl ValueError)"

fun sum_arg_bytes :: "string \<Rightarrow> nat \<Rightarrow> py_error + nat" where
  "sum_arg_bytes [] num = Inr num"
| "sum_arg_bytes (d # ds) num =
     (case py_int_digit d of Inl e \<Rightarrow> Inl e | Inr n \<Rightarrow> sum_arg_bytes ds (num + n))"

record LwlMsg =
  msg_id :: nat
  fmt :: string
  arg_bytes :: string
  file_path :: string
  line_num :: nat
  lwl_statement :: string
  num_arg_bytes :: nat

text \<open>
  \<^verbatim>\<open>LwlMsg.__init__\<close>: \<open>num_arg_bytes\<close> is the sum of the digits of \<open>arg_bytes\<close>.
\<close>

definition LwlMsg_init ::
  "nat \<Rightarrow> string \<Rightarrow> string \<Rightarrow> string \<Rightarrow> nat \<Rightarrow> string \<Rightarrow> py_error + LwlMsg" where
  "LwlMsg_init i f ab fp ln st =
     (case sum_arg_bytes ab 0 of
        Inl e \<Rightarrow> Inl e
      | Inr n \<Rightarrow> Inr \<lparr>msg_id = i, fmt = f, arg_bytes = ab, file_path = fp, line_num = ln,
                      lwl_statement = st, num_arg_bytes = n\<rparr>)"

record LwlMsgSet =
  lwl_msgs :: "nat \<rightharpoonup> LwlMsg"
  max_msg_len :: nat

definition LwlMsgSet_init :: LwlMsgSet where
  "LwlMsgSet_init = \<lparr>lwl_msgs = Map.empty, max_msg_len = 0\<rparr>"

text \<open>
  \<^verbatim>\<open>LwlMsgSet.add_lwl_msg(id, fmt, arg_bytes, lwl_statement, file_path, line_num)\<close>:
  a duplicate id is reported and refused (the set is unchanged, the result False);
  otherwise the message is stored and \<open>max_msg_len\<close> raised to \<open>1 +\<close> the sum of
  the digits when that is larger.
\<close>

definition add_lwl_msg ::
  "LwlMsgSet \<Rightarrow> nat \<Rightarrow> string \<Rightarrow> string \<Rightarrow> string \<Rightarrow> string \<Rightarrow> nat
     \<Rightarrow> line list \<times> (py_error + bool \<times> LwlMsgSet)" where
  "add_lwl_msg ms i f ab st fp ln =
     (case lwl_msgs ms i of
        Some old \<Rightarrow>
          ([Duplicate_id fp ln i st (file_path old) (line_num old) (lwl_statement old)],
           Inr (False, ms))
      | None \<Rightarrow>
          (case LwlMsg_init i f ab fp ln st of
             Inl e \<Rightarrow> ([], Inl e)
           | Inr m \<Rightarrow>
               (case sum_arg_bytes ab 1 of
                  Inl e \<Rightarrow> ([], Inl e)
                | Inr msg_len \<Rightarrow>
                    ([], Inr (True,
                       ms\<lparr>lwl_msgs := (lwl_msgs ms)(i \<mapsto> m),
                          max_msg_len := (if msg_len > max_msg_len ms then msg_len
                                          else max_msg_len ms)\<rparr>)))))"

text \<open>\<^verbatim>\<open>LwlMsgSet.get_metadata(id)\<close>: the dictionary lookup, None on a missing key.\<close>

definition get_metadata :: "LwlMsgSet \<Rightarrow> nat \<Rightarrow> LwlMsg option" where
  "get_metadata ms i = lwl_msgs ms i"


section \<open>logfmt.py: LwlPrinter.get_optimal_start_idx\<close>

text \<open>
  \<open>circ_dist buf_len put_idx idx\<close> counts the bytes from \<open>idx\<close> forward to \<open>put_idx\<close>
  (exclusive) around the buffer; it is the measure by which the walks below terminate.
\<close>

definition circ_dist :: "nat \<Rightarrow> nat \<Rightarrow> nat \<Rightarrow> nat" where
  "circ_dist bl put_idx idx = (if idx \<le> put_idx then put_idx - idx else put_idx + bl - idx)"

lemma get_data_circ_1:
  "get_data_circ d idx 1 bs bl put_idx fg = Inr (v, idx') \<Longrightarrow>
     idx < bl \<and> put_idx < bl \<and> (idx \<noteq> put_idx \<or> fg) \<and> bs + idx < length d
     \<and> v = unat (d ! (bs + idx)) \<and> idx' = (if idx + 1 \<ge> bl then 0 else idx + 1)"
  by (auto simp: get_data_circ_def split: if_splits)

lemma circ_dist_next:
  "idx < bl \<Longrightarrow> put_idx < bl \<Longrightarrow> idx \<noteq> put_idx \<Longrightarrow>
     Suc (circ_dist bl put_idx (if idx + 1 \<ge> bl then 0 else idx + 1)) = circ_dist bl put_idx idx"
  by (auto simp: circ_dist_def)

lemma circ_dist_lt: "idx < bl \<Longrightarrow> put_idx < bl \<Longrightarrow> circ_dist bl put_idx idx < bl"
  by (auto simp: circ_dist_def)

lemma circ_next_lt: "idx < bl \<Longrightarrow> (if idx + 1 \<ge> bl then 0 else idx + 1) < (bl::nat)"
  by auto

lemma get_bytes_left_circ_loop_dist:
  "idx < bl \<Longrightarrow> put_idx < bl \<Longrightarrow>
   get_bytes_left_circ_loop bl put_idx False n b idx = (k, idx') \<Longrightarrow>
     idx' < bl \<and> k = b + min n (circ_dist bl put_idx idx)
     \<and> circ_dist bl put_idx idx' = circ_dist bl put_idx idx - min n (circ_dist bl put_idx idx)"
proof (induction n arbitrary: b idx)
  case 0
  then show ?case by simp
next
  case (Suc n)
  show ?case
  proof (cases "idx = put_idx")
    case True
    with Suc.prems show ?thesis by (simp add: circ_dist_def)
  next
    case False
    let ?nxt = "if idx + 1 \<ge> bl then 0 else idx + 1"
    from False Suc.prems have step:
      "get_bytes_left_circ_loop bl put_idx False n (b + 1) ?nxt = (k, idx')" by simp
    have "?nxt < bl" using Suc.prems(1) by auto
    from Suc.IH[OF this Suc.prems(2) step] circ_dist_next[OF Suc.prems(1,2) False]
    show ?thesis by auto
  qed
qed

text \<open>
  One trial: the \<^verbatim>\<open>while (True)\<close> loop of \<^verbatim>\<open>get_optimal_start_idx\<close>, from
  \<open>idx\<close> with the given \<open>first_get\<close>, returning \<open>invalid_id_ctr\<close>. EOFError on the id
  read ends the trial (break); any other exception leaves the function. A known id
  whose argument bytes are not all there ends the trial as well. The counters
  \<open>valid_id_ctr\<close> and \<open>bytes_left\<close> are only logged and are left out.
\<close>

function trial_walk ::
  "byte list \<Rightarrow> LwlMsgSet \<Rightarrow> nat \<Rightarrow> nat \<Rightarrow> nat \<Rightarrow> nat \<Rightarrow> bool \<Rightarrow> nat \<Rightarrow> py_error + nat" where
  "trial_walk data_array ms buf_start_idx buf_len put_idx idx first_get invalid_id_ctr =
     (case get_data_circ data_array idx 1 buf_start_idx buf_len put_idx first_get of
        Inl e \<Rightarrow> if e = EOFError then Inr invalid_id_ctr else Inl e
      | Inr (i, idx1) \<Rightarrow>
          (case get_metadata ms i of
             None \<Rightarrow>
               trial_walk data_array ms buf_start_idx buf_len put_idx idx1 False
                 (invalid_id_ctr + 1)
           | Some msg_meta \<Rightarrow>
               (case get_bytes_left_circ idx1 (num_arg_bytes msg_meta) buf_start_idx buf_len
                       put_idx False of
                  Inl e \<Rightarrow> Inl e
                | Inr (bytes_left, idx2) \<Rightarrow>
                    if bytes_left < num_arg_bytes msg_meta then Inr invalid_id_ctr
                    else
                      trial_walk data_array ms buf_start_idx buf_len put_idx idx2 False
                        invalid_id_ctr)))"
  by pat_completeness auto
termination
proof (relation "measure (\<lambda>(d, ms, bs, bl, put_idx, idx, fg, c).
                   (if fg then bl else 0) + circ_dist bl put_idx idx)", goal_cases)
  case 1
  then show ?case by simp
next
  case (2 d ms bs bl put_idx idx fg c x i idx1)
  from get_data_circ_1[of d idx bs bl put_idx fg i idx1] 2
  have f: "idx < bl" "put_idx < bl" "idx \<noteq> put_idx \<or> fg"
    "idx1 = (if idx + 1 \<ge> bl then 0 else idx + 1)" by auto
  show ?case
  proof (cases "idx = put_idx")
    case True
    with f circ_dist_lt[of idx1 bl put_idx] show ?thesis by (auto simp: circ_dist_def)
  next
    case False
    with f circ_dist_next[of idx bl put_idx] show ?thesis by auto
  qed
next
  case (3 d ms bs bl put_idx idx fg c x i idx1 m y k idx2)
  from get_data_circ_1[of d idx bs bl put_idx fg i idx1] 3
  have f: "idx < bl" "put_idx < bl" "idx \<noteq> put_idx \<or> fg"
    "idx1 = (if idx + 1 \<ge> bl then 0 else idx + 1)" by auto
  then have i1: "idx1 < bl" by auto
  from 3 i1 f have "get_bytes_left_circ_loop bl put_idx False (num_arg_bytes m) 0 idx1 = (k, idx2)"
    by (auto simp: get_bytes_left_circ_def split: if_splits)
  from get_bytes_left_circ_loop_dist[OF i1 f(2) this]
  have le: "circ_dist bl put_idx idx2 \<le> circ_dist bl put_idx idx1" by simp
  show ?case
  proof (cases "idx = put_idx")
    case True
    with f le circ_dist_lt[of idx1 bl put_idx] show ?thesis by (auto simp: circ_dist_def)
  next
    case False
    with f le circ_dist_next[of idx bl put_idx] show ?thesis by auto
  qed
qed


text \<open>
  The body of the \<^verbatim>\<open>for offset in range(max_msg_len + 1)\<close> loop: the trial's start
  index (one subtraction of \<open>buf_len\<close>, as in the source) and its count; the first get
  is exempt only at offset 0 (\<^verbatim>\<open>first_get = offset == 0\<close>).
\<close>

definition trial_start :: "nat \<Rightarrow> nat \<Rightarrow> nat \<Rightarrow> nat" where
  "trial_start buf_len put_idx offset =
     (let start_idx = put_idx + offset
      in if start_idx \<ge> buf_len then start_idx - buf_len else start_idx)"

definition trial_count ::
  "byte list \<Rightarrow> LwlMsgSet \<Rightarrow> nat \<Rightarrow> nat \<Rightarrow> nat \<Rightarrow> nat \<Rightarrow> py_error + nat" where
  "trial_count data_array ms buf_start_idx buf_len put_idx offset =
     trial_walk data_array ms buf_start_idx buf_len put_idx
       (trial_start buf_len put_idx offset) (offset = 0) 0"

text \<open>
  The loop over the offsets, with \<open>optimal_invalid_ids\<close> and \<open>optimal_start_idx\<close>
  (\<open>None\<close> is Python's None). A trial replaces the optimum only when its count is
  strictly smaller.
\<close>

fun optimal_loop ::
  "byte list \<Rightarrow> LwlMsgSet \<Rightarrow> nat \<Rightarrow> nat \<Rightarrow> nat \<Rightarrow> nat list \<Rightarrow> nat \<Rightarrow> nat option
     \<Rightarrow> py_error + nat option" where
  "optimal_loop data_array ms buf_start_idx buf_len put_idx [] optimal_invalid_ids
     optimal_start_idx = Inr optimal_start_idx"
| "optimal_loop data_array ms buf_start_idx buf_len put_idx (offset # offsets)
     optimal_invalid_ids optimal_start_idx =
     (case trial_count data_array ms buf_start_idx buf_len put_idx offset of
        Inl e \<Rightarrow> Inl e
      | Inr invalid_id_ctr \<Rightarrow>
          if invalid_id_ctr < optimal_invalid_ids then
            optimal_loop data_array ms buf_start_idx buf_len put_idx offsets invalid_id_ctr
              (Some (trial_start buf_len put_idx offset))
          else
            optimal_loop data_array ms buf_start_idx buf_len put_idx offsets
              optimal_invalid_ids optimal_start_idx)"

definition get_optimal_start_idx ::
  "byte list \<Rightarrow> LwlMsgSet \<Rightarrow> nat \<Rightarrow> nat \<Rightarrow> nat \<Rightarrow> py_error + nat option" where
  "get_optimal_start_idx data_array ms buf_start_idx buf_len put_idx =
     optimal_loop data_array ms buf_start_idx buf_len put_idx [0..<max_msg_len ms + 1]
       buf_len None"


section \<open>logfmt.py: LwlPrinter.pretty_print\<close>

text \<open>
  The inner \<^verbatim>\<open>while True\<close> loop that looks for a message id. \<open>last_id\<close> is the
  variable \<^verbatim>\<open>id\<close> (None when the outer iteration starts), \<open>skipped_data\<close> the list
  of the same name. The source sets \<^verbatim>\<open>id_idx = idx\<close> before each get, so when the get
  raises EOFError, \<open>id_idx\<close> is the index the get was tried at, \<open>id\<close> is the last
  unknown id read in this outer iteration (or None), and \<open>first_get\<close> has the value it
  was passed with: that is \<open>Exhausted id id_idx first_get\<close>. A known id gives
  \<open>Found id id_idx idx skipped_data msg_meta\<close>.
\<close>

datatype id_search =
    Exhausted "nat option" nat bool
  | Found nat nat nat "nat list" LwlMsg

function find_id ::
  "byte list \<Rightarrow> LwlMsgSet \<Rightarrow> nat \<Rightarrow> nat \<Rightarrow> nat \<Rightarrow> nat \<Rightarrow> bool \<Rightarrow> nat option \<Rightarrow> nat list
     \<Rightarrow> py_error + id_search" where
  "find_id data_array ms buf_start_idx buf_len put_idx idx first_get last_id skipped_data =
     (case get_data_circ data_array idx 1 buf_start_idx buf_len put_idx first_get of
        Inl e \<Rightarrow> if e = EOFError then Inr (Exhausted last_id idx first_get) else Inl e
      | Inr (i, idx1) \<Rightarrow>
          (case get_metadata ms i of
             None \<Rightarrow>
               find_id data_array ms buf_start_idx buf_len put_idx idx1 False (Some i)
                 (skipped_data @ [i])
           | Some msg_meta \<Rightarrow> Inr (Found i idx idx1 skipped_data msg_meta)))"
  by pat_completeness auto
termination
proof (relation "measure (\<lambda>(d, ms, bs, bl, put_idx, idx, fg, l, s).
                   (if fg then bl else 0) + circ_dist bl put_idx idx)", goal_cases)
  case 1
  then show ?case by simp
next
  case (2 d ms bs bl put_idx idx fg l s x i idx1)
  from get_data_circ_1[of d idx bs bl put_idx fg i idx1] 2
  have f: "idx < bl" "put_idx < bl" "idx \<noteq> put_idx \<or> fg"
    "idx1 = (if idx + 1 \<ge> bl then 0 else idx + 1)" by auto
  show ?case
  proof (cases "idx = put_idx")
    case True
    with f circ_dist_lt[of idx1 bl put_idx] show ?thesis by (auto simp: circ_dist_def)
  next
    case False
    with f circ_dist_next[of idx bl put_idx] show ?thesis by auto
  qed
qed

declare find_id.simps [simp del]

text \<open>
  The \<^verbatim>\<open>for arg_bytes in msg_meta.arg_bytes\<close> loop: one circular read per digit of
  \<open>arg_bytes\<close>, of that many bytes.
\<close>

fun get_args ::
  "byte list \<Rightarrow> nat \<Rightarrow> nat \<Rightarrow> nat \<Rightarrow> bool \<Rightarrow> string \<Rightarrow> nat \<Rightarrow> nat list
     \<Rightarrow> py_error + (nat list \<times> nat)" where
  "get_args data_array buf_start_idx buf_len put_idx first_get [] idx arg_values =
     Inr (arg_values, idx)"
| "get_args data_array buf_start_idx buf_len put_idx first_get (c # cs) idx arg_values =
     (case py_int_digit c of
        Inl e \<Rightarrow> Inl e
      | Inr width \<Rightarrow>
          (case get_data_circ data_array idx width buf_start_idx buf_len put_idx first_get of
             Inl e \<Rightarrow> Inl e
           | Inr (arg_value, idx1) \<Rightarrow>
               get_args data_array buf_start_idx buf_len put_idx first_get cs idx1
                 (arg_values @ [arg_value])))"

lemma find_id_Found:
  "find_id d ms bs bl put_idx idx fg l s = Inr (Found i id_idx idx1 sk m) \<Longrightarrow>
     idx1 < bl \<and> put_idx < bl
     \<and> circ_dist bl put_idx idx1 < (if fg then bl else 0) + circ_dist bl put_idx idx"
proof (induction d ms bs bl put_idx idx fg l s rule: find_id.induct)
  case (1 d ms bs bl put_idx idx fg l s)
  from "1.prems" obtain j idxn where rd: "get_data_circ d idx 1 bs bl put_idx fg = Inr (j, idxn)"
    by (subst (asm) find_id.simps) (auto split: sum.splits if_splits)
  from get_data_circ_1[OF rd]
  have f: "idx < bl" "put_idx < bl" "idx \<noteq> put_idx \<or> fg"
    "idxn = (if idx + 1 \<ge> bl then 0 else idx + 1)" by auto
  then have n1: "idxn < bl" by auto
  have d1: "circ_dist bl put_idx idxn < (if fg then bl else 0) + circ_dist bl put_idx idx"
  proof (cases "idx = put_idx")
    case True
    with f circ_dist_lt[OF n1 f(2)] show ?thesis by auto
  next
    case False
    with f circ_dist_next[of idx bl put_idx] show ?thesis by auto
  qed
  show ?case
  proof (cases "get_metadata ms j")
    case None
    with "1.prems" rd have "find_id d ms bs bl put_idx idxn False (Some j) (s @ [j])
        = Inr (Found i id_idx idx1 sk m)"
      by (subst (asm) find_id.simps) simp
    from "1.IH"[OF rd refl None this] d1 show ?thesis by auto
  next
    case (Some mm)
    with "1.prems" rd have "idx1 = idxn"
      by (subst (asm) find_id.simps) simp
    with n1 f d1 show ?thesis by simp
  qed
qed

lemma get_data_circ_loop_dist:
  "idx < bl \<Longrightarrow> put_idx < bl \<Longrightarrow>
   get_data_circ_loop d bs bl put_idx False n acc idx = Inr (v, idx') \<Longrightarrow>
     idx' < bl \<and> circ_dist bl put_idx idx' + n = circ_dist bl put_idx idx"
proof (induction n arbitrary: acc idx)
  case 0
  then show ?case by simp
next
  case (Suc n)
  let ?nxt = "if idx + 1 \<ge> bl then 0 else idx + 1"
  from Suc.prems have ne: "idx \<noteq> put_idx" by (auto split: if_splits)
  from Suc.prems ne have step: "get_data_circ_loop d bs bl put_idx False n
      (push_bit 8 acc + unat (d ! (bs + idx))) ?nxt = Inr (v, idx')"
    by (auto split: if_splits)
  have "?nxt < bl" using Suc.prems(1) by auto
  from Suc.IH[OF this Suc.prems(2) step] circ_dist_next[OF Suc.prems(1,2) ne]
  show ?case by auto
qed

lemma get_data_circ_dist:
  "get_data_circ d idx n bs bl put_idx False = Inr (v, idx') \<Longrightarrow>
     idx < bl \<and> put_idx < bl \<and> idx' < bl \<and> circ_dist bl put_idx idx' + n = circ_dist bl put_idx idx"
  using get_data_circ_loop_dist[of idx bl put_idx d bs n 0 v idx']
  by (auto simp: get_data_circ_def split: if_splits)

lemma get_args_dist:
  "idx < bl \<Longrightarrow> get_args d bs bl put_idx False cs idx vals = Inr (vals', idx') \<Longrightarrow>
     idx' < bl \<and> circ_dist bl put_idx idx' \<le> circ_dist bl put_idx idx"
proof (induction cs arbitrary: idx vals)
  case Nil
  then show ?case by simp
next
  case (Cons c cs)
  from Cons.prems(2) obtain w v idx1 where w: "py_int_digit c = Inr w"
    and rd: "get_data_circ d idx w bs bl put_idx False = Inr (v, idx1)"
    and rest: "get_args d bs bl put_idx False cs idx1 (vals @ [v]) = Inr (vals', idx')"
    by (auto split: sum.splits)
  from get_data_circ_dist[OF rd] Cons.IH[OF _ rest] show ?case by auto
qed

text \<open>
  The outer \<^verbatim>\<open>while True\<close> loop inside \<^verbatim>\<open>try\<close>. \<open>py_format\<close> stands for Python's
  \<^verbatim>\<open>%\<close> operator on a string and a tuple, which is not code of this repository: it
  returns the formatted string or raises (TypeError when the tuple does not fit the
  format). The loop ends by an exception: EOFError is caught by the \<^verbatim>\<open>except\<close>
  clause, and the function goes on with the values \<open>(id, id_idx, first_get)\<close> of that
  moment; any other exception leaves \<^verbatim>\<open>pretty_print\<close>. The lines printed so far are
  returned in both cases.
\<close>

function decode_loop ::
  "(string \<Rightarrow> nat list \<Rightarrow> py_error + string) \<Rightarrow> byte list \<Rightarrow> LwlMsgSet \<Rightarrow> nat \<Rightarrow> nat \<Rightarrow> nat
     \<Rightarrow> nat \<Rightarrow> bool \<Rightarrow> line list \<Rightarrow> line list \<times> (py_error + nat option \<times> nat \<times> bool)" where
  "decode_loop py_format data_array ms buf_start_idx buf_len put_idx idx first_get out =
     (case find_id data_array ms buf_start_idx buf_len put_idx idx first_get None [] of
        Inl e \<Rightarrow> (out, Inl e)
      | Inr (Exhausted last_id id_idx fg) \<Rightarrow> (out, Inr (last_id, id_idx, fg))
      | Inr (Found i id_idx idx1 skipped_data msg_meta) \<Rightarrow>
          (let out1 = (if skipped_data \<noteq> [] then out @ [Skipped_data skipped_data] else out)
           in case get_args data_array buf_start_idx buf_len put_idx False (arg_bytes msg_meta)
                     idx1 [] of
                Inl e \<Rightarrow>
                  if e = EOFError then (out1, Inr (Some i, id_idx, False)) else (out1, Inl e)
              | Inr (arg_values, idx2) \<Rightarrow>
                  (case py_format (fmt msg_meta) arg_values of
                     Inl e \<Rightarrow> (out1, Inl e)
                   | Inr s \<Rightarrow>
                       decode_loop py_format data_array ms buf_start_idx buf_len put_idx idx2
                         False (out1 @ [Message s]))))"
  by pat_completeness auto
termination
proof (relation "measure (\<lambda>(pf, d, ms, bs, bl, put_idx, idx, fg, out).
                   (if fg then bl else 0) + circ_dist bl put_idx idx)", goal_cases)
  case 1
  then show ?case by simp
next
  case (2 pf d ms bs bl put_idx idx fg out sr i id_idx idx1 sk m out1 y vals idx2 s)
  then have fnd: "find_id d ms bs bl put_idx idx fg None [] = Inr (Found i id_idx idx1 sk m)"
    and ga: "get_args d bs bl put_idx False (arg_bytes m) idx1 [] = Inr (vals, idx2)"
    by auto
  from find_id_Found[OF fnd] have a: "idx1 < bl"
    "circ_dist bl put_idx idx1 < (if fg then bl else 0) + circ_dist bl put_idx idx" by auto
  from get_args_dist[OF a(1) ga] a(2) show ?case by auto
qed

declare decode_loop.simps [simp del]

text \<open>
  The loop that collects the unused data: it ends only by an exception. With
  \<open>first_get\<close> true it would never raise EOFError, so this loop is a partial function:
  \<open>None\<close> is the run that does not return.
\<close>

partial_function (option) unused_loop ::
  "byte list \<Rightarrow> nat \<Rightarrow> nat \<Rightarrow> nat \<Rightarrow> nat \<Rightarrow> bool \<Rightarrow> nat list \<Rightarrow> (py_error + nat list) option" where
  "unused_loop data_array buf_start_idx buf_len put_idx idx first_get unused_data =
     (case get_data_circ data_array idx 1 buf_start_idx buf_len put_idx first_get of
        Inl e \<Rightarrow> if e = EOFError then Some (Inr unused_data) else Some (Inl e)
      | Inr (v, idx1) \<Rightarrow>
          unused_loop data_array buf_start_idx buf_len put_idx idx1 first_get (unused_data @ [v]))"

text \<open>
  What follows the \<^verbatim>\<open>try\<close> block: when \<^verbatim>\<open>id\<close> is not None, the unused data are
  collected from \<open>id_idx\<close> on and printed. \<open>stream_decode\<close> is the decoding from a start
  index: the loop and this report.
\<close>

definition report_unused ::
  "byte list \<Rightarrow> nat \<Rightarrow> nat \<Rightarrow> nat \<Rightarrow> line list \<times> (py_error + nat option \<times> nat \<times> bool)
     \<Rightarrow> (line list \<times> (py_error + unit)) option" where
  "report_unused data_array buf_start_idx buf_len put_idx res =
     (case res of
        (out1, Inl e) \<Rightarrow> Some (out1, Inl e)
      | (out1, Inr (None, id_idx, fg)) \<Rightarrow> Some (out1, Inr ())
      | (out1, Inr (Some i, id_idx, fg)) \<Rightarrow>
          (case unused_loop data_array buf_start_idx buf_len put_idx id_idx fg [] of
             None \<Rightarrow> None
           | Some (Inl e) \<Rightarrow> Some (out1, Inl e)
           | Some (Inr unused_data) \<Rightarrow> Some (out1 @ [Unused_data unused_data], Inr ())))"

definition stream_decode ::
  "(string \<Rightarrow> nat list \<Rightarrow> py_error + string) \<Rightarrow> byte list \<Rightarrow> LwlMsgSet \<Rightarrow> nat \<Rightarrow> nat \<Rightarrow> nat
     \<Rightarrow> nat \<Rightarrow> bool \<Rightarrow> line list \<Rightarrow> (line list \<times> (py_error + unit)) option" where
  "stream_decode py_format data_array ms buf_start_idx buf_len put_idx idx first_get out =
     report_unused data_array buf_start_idx buf_len put_idx
       (decode_loop py_format data_array ms buf_start_idx buf_len put_idx idx first_get out)"

text \<open>
  \<^verbatim>\<open>LwlPrinter.pretty_print(section_offset, section_len)\<close>. The header fields are read
  with \<^verbatim>\<open>Data.get_data\<close>, in the section byte order. When
  \<^verbatim>\<open>get_optimal_start_idx\<close> returns None, the first \<^verbatim>\<open>get_data_circ(None, ...)\<close>
  raises TypeError at \<^verbatim>\<open>idx >= buf_len\<close>. The decoding starts with
  \<^verbatim>\<open>first_get = True\<close>.
\<close>

definition LwlPrinter_pretty_print ::
  "(string \<Rightarrow> nat list \<Rightarrow> py_error + string) \<Rightarrow> bool \<Rightarrow> byte list \<Rightarrow> LwlMsgSet \<Rightarrow> nat \<Rightarrow> nat
     \<Rightarrow> (line list \<times> (py_error + unit)) option" where
  "LwlPrinter_pretty_print py_format g_swab data_array ms section_offset section_len =
     (let out0 = [Rule, Text ''LWL'', Rule] in
      if section_len < 20 then Some (out0 @ [Err_lwl_size section_len], Inr ())
      else
        case get_data g_swab data_array (section_offset + 8) 4 of
          Inl e \<Rightarrow> Some (out0, Inl e)
        | Inr buf_len \<Rightarrow>
            (case get_data g_swab data_array (section_offset + 12) 4 of
               Inl e \<Rightarrow> Some (out0, Inl e)
             | Inr put_idx \<Rightarrow>
                 (let buf_start_idx = section_offset + 16 in
                  if buf_len + 16 \<noteq> section_len then Some (out0 @ [Err_buf_len buf_len], Inr ())
                  else if put_idx \<ge> buf_len then Some (out0 @ [Err_put_idx], Inr ())
                  else
                    case get_optimal_start_idx data_array ms buf_start_idx buf_len put_idx of
                      Inl e \<Rightarrow> Some (out0, Inl e)
                    | Inr None \<Rightarrow> Some (out0, Inl TypeError)
                    | Inr (Some idx) \<Rightarrow>
                        stream_decode py_format data_array ms buf_start_idx buf_len put_idx
                          idx True out0)))"


section \<open>logfmt.py: class FaultData\<close>

text \<open>
  A fault field (\<^verbatim>\<open>FaultField\<close>: name, offset, num_bytes) and the field list with the
  longest name's length. \<^verbatim>\<open>FaultData.pretty_print\<close> prints every field whose name
  neither starts with \<^verbatim>\<open>pad\<close> nor is \<^verbatim>\<open>magic\<close> or \<^verbatim>\<open>num_section_bytes\<close>, read by
  \<^verbatim>\<open>Data.get_data\<close> at the section's offset plus the field's; an EOFError of that read
  is not caught.
\<close>

record FaultField =
  field_name :: string
  field_offset :: nat
  field_num_bytes :: nat

record FaultData =
  fault_fields :: "FaultField list"
  max_name_len :: nat

definition FaultData_init :: FaultData where
  "FaultData_init = \<lparr>fault_fields = [], max_name_len = 0\<rparr>"

definition add_fault_field :: "FaultData \<Rightarrow> string \<Rightarrow> nat \<Rightarrow> nat \<Rightarrow> FaultData" where
  "add_fault_field fd nm off nb =
     fd\<lparr>fault_fields := fault_fields fd @ [\<lparr>field_name = nm, field_offset = off, field_num_bytes = nb\<rparr>],
        max_name_len := (if length nm > max_name_len fd then length nm else max_name_len fd)\<rparr>"

fun fault_fields_loop ::
  "bool \<Rightarrow> byte list \<Rightarrow> nat \<Rightarrow> nat \<Rightarrow> FaultField list \<Rightarrow> line list
     \<Rightarrow> line list \<times> (py_error + unit)" where
  "fault_fields_loop g_swab data_array name_len section_offset [] out = (out, Inr ())"
| "fault_fields_loop g_swab data_array name_len section_offset (field # rest) out =
     (if take 3 (field_name field) = ''pad''
         \<or> field_name field = ''magic'' \<or> field_name field = ''num_section_bytes''
      then fault_fields_loop g_swab data_array name_len section_offset rest out
      else
        case get_data g_swab data_array (section_offset + field_offset field)
               (field_num_bytes field) of
          Inl e \<Rightarrow> (out, Inl e)
        | Inr v \<Rightarrow>
            fault_fields_loop g_swab data_array name_len section_offset rest
              (out @ [Field name_len (field_name field) v]))"

definition FaultData_pretty_print ::
  "bool \<Rightarrow> byte list \<Rightarrow> FaultData \<Rightarrow> nat \<Rightarrow> nat \<Rightarrow> line list \<times> (py_error + unit)" where
  "FaultData_pretty_print g_swab data_array fd section_offset section_len =
     fault_fields_loop g_swab data_array (max_name_len fd) section_offset (fault_fields fd)
       [Rule, Text ''Fault data'', Rule]"

section \<open>logfmt.py: Data.process_data\<close>

definition MOD_MAGIC_FAULT :: nat where "MOD_MAGIC_FAULT = 0xdead0001"
definition MOD_MAGIC_LWL :: nat where "MOD_MAGIC_LWL = 0xf00d0001"
definition MOD_MAGIC_TRAILER :: nat where "MOD_MAGIC_TRAILER = 0xc0da0001"

datatype section_type = SECTION_TYPE_FAULT | SECTION_TYPE_LWL | SECTION_TYPE_TRAILER

definition magic_to_fault_type :: "nat \<rightharpoonup> section_type" where
  "magic_to_fault_type =
     [MOD_MAGIC_FAULT \<mapsto> SECTION_TYPE_FAULT,
      MOD_MAGIC_LWL \<mapsto> SECTION_TYPE_LWL,
      MOD_MAGIC_TRAILER \<mapsto> SECTION_TYPE_TRAILER]"

text \<open>
  The magic of the next section. \<^verbatim>\<open>process_data\<close> assigns the name \<^verbatim>\<open>g_swab\<close>
  (\<^verbatim>\<open>g_swab = not g_swab\<close>) and holds no \<^verbatim>\<open>global g_swab\<close> statement, so in this
  function the name is a local variable: \<open>local_g_swab\<close>, \<open>None\<close> while it is unbound,
  as it is when the function starts. Reading it unbound raises UnboundLocalError.
  \<^verbatim>\<open>Data.get_data\<close> reads the module's global \<open>g_swab\<close>, which no statement of the
  file assigns after \<^verbatim>\<open>g_swab = False\<close>. \<open>Magic_unknown\<close> is the path that prints
  \<^verbatim>\<open>Can not determine section type\<close> and returns False.
\<close>

datatype magic_result =
    Magic_raised py_error
  | Magic_unknown
  | Magic_known nat "bool option"

definition read_magic :: "bool \<Rightarrow> byte list \<Rightarrow> bool option \<Rightarrow> nat \<Rightarrow> magic_result" where
  "read_magic g_swab data_array local_g_swab idx =
     (case get_data g_swab data_array idx 4 of
        Inl e \<Rightarrow> Magic_raised e
      | Inr magic \<Rightarrow>
          if magic_to_fault_type magic \<noteq> None then Magic_known magic local_g_swab
          else
            (case local_g_swab of
               None \<Rightarrow> Magic_raised UnboundLocalError
             | Some b \<Rightarrow>
                 (case get_data g_swab data_array idx 4 of
                    Inl e \<Rightarrow> Magic_raised e
                  | Inr magic2 \<Rightarrow>
                      if magic_to_fault_type magic2 \<noteq> None
                      then Magic_known magic2 (Some (\<not> b))
                      else Magic_unknown)))"

text \<open>
  The \<^verbatim>\<open>if/elif\<close> chain on the section type: the two decoders, or the end marker.
\<close>

definition dispatch_section ::
  "(string \<Rightarrow> nat list \<Rightarrow> py_error + string) \<Rightarrow> bool \<Rightarrow> FaultData \<Rightarrow> LwlMsgSet \<Rightarrow> byte list
     \<Rightarrow> section_type \<Rightarrow> nat \<Rightarrow> nat \<Rightarrow> (line list \<times> (py_error + unit)) option" where
  "dispatch_section py_format g_swab fd ms data_array st idx section_len =
     (case st of
        SECTION_TYPE_FAULT \<Rightarrow> Some (FaultData_pretty_print g_swab data_array fd idx section_len)
      | SECTION_TYPE_LWL \<Rightarrow>
          LwlPrinter_pretty_print py_format g_swab data_array ms idx section_len
      | SECTION_TYPE_TRAILER \<Rightarrow> Some ([Rule, Text ''End of fault data'', Rule], Inr ()))"

text \<open>
  The \<^verbatim>\<open>while idx < self.data_len\<close> loop. The result holds the lines printed, the
  value of \<open>idx\<close> when the function ends (the bytes consumed), and the value returned
  or the exception raised. The loop can run forever, so it is a partial function:
  \<open>None\<close> is the run that does not return.
\<close>

partial_function (option) process_loop ::
  "(string \<Rightarrow> nat list \<Rightarrow> py_error + string) \<Rightarrow> bool \<Rightarrow> FaultData \<Rightarrow> LwlMsgSet \<Rightarrow> byte list
     \<Rightarrow> bool option \<Rightarrow> nat \<Rightarrow> line list \<Rightarrow> (line list \<times> nat \<times> (py_error + bool)) option" where
  "process_loop py_format g_swab fd ms data_array local_g_swab idx out =
     (if idx < length data_array then
        if idx + 8 > length data_array then
          Some (out @ [Err_header idx (length data_array)], idx, Inr False)
        else
          case read_magic g_swab data_array local_g_swab idx of
            Magic_raised e \<Rightarrow> Some (out, idx, Inl e)
          | Magic_unknown \<Rightarrow> Some (out @ [Err_section_type idx], idx, Inr False)
          | Magic_known magic local_g_swab1 \<Rightarrow>
              (case magic_to_fault_type magic of
                 None \<Rightarrow> Some (out, idx, Inl KeyError)
               | Some st \<Rightarrow>
                   (case get_data g_swab data_array (idx + 4) 4 of
                      Inl e \<Rightarrow> Some (out, idx, Inl e)
                    | Inr section_len \<Rightarrow>
                        if idx + section_len > length data_array then
                          Some (out @ [Err_section_len idx section_len (length data_array)],
                                idx, Inr False)
                        else
                          (case dispatch_section py_format g_swab fd ms data_array st idx
                                  section_len of
                             None \<Rightarrow> None
                           | Some (printed, Inl e) \<Rightarrow> Some (out @ printed, idx, Inl e)
                           | Some (printed, Inr u) \<Rightarrow>
                               process_loop py_format g_swab fd ms data_array local_g_swab1
                                 (idx + section_len) (out @ printed))))
      else Some (out, idx, Inr True))"

definition process_data ::
  "(string \<Rightarrow> nat list \<Rightarrow> py_error + string) \<Rightarrow> bool \<Rightarrow> FaultData \<Rightarrow> LwlMsgSet \<Rightarrow> byte list
     \<Rightarrow> (line list \<times> nat \<times> (py_error + bool)) option" where
  "process_data py_format g_swab fd ms data_array =
     process_loop py_format g_swab fd ms data_array None 0 []"


section \<open>lwl.py: get_optimal_start_idx and print_data\<close>

text \<open>
  \<^verbatim>\<open>get_data_bytes\<close> checks neither \<open>put_idx\<close> nor \<open>start_idx\<close> against the length of
  the data, so with a put index outside the data a walk never meets it and runs forever:
  the loops of lwl.py are partial functions, \<open>None\<close> being the run that does not return.

  One trial of \<^verbatim>\<open>get_optimal_start_idx(data, put_idx)\<close>: when the argument bytes of a
  known id run into EOFError, the source sets \<^verbatim>\<open>idx = save_idx\<close> and goes on with the
  loop, reading the byte after the id as the next id.
\<close>

partial_function (option) lwl_trial_walk ::
  "byte list \<Rightarrow> LwlMsgSet \<Rightarrow> nat \<Rightarrow> nat \<Rightarrow> bool \<Rightarrow> nat \<Rightarrow> (py_error + nat) option" where
  "lwl_trial_walk data ms put_idx idx first_get invalid_id_ctr =
     (case get_data_bytes data idx 1 put_idx first_get of
        Inl e \<Rightarrow> if e = EOFError then Some (Inr invalid_id_ctr) else Some (Inl e)
      | Inr (i, idx1) \<Rightarrow>
          (case get_metadata ms i of
             None \<Rightarrow> lwl_trial_walk data ms put_idx idx1 False (invalid_id_ctr + 1)
           | Some msg_meta \<Rightarrow>
               (case get_data_bytes data idx1 (num_arg_bytes msg_meta) put_idx False of
                  Inl e \<Rightarrow>
                    if e = EOFError then lwl_trial_walk data ms put_idx idx1 False invalid_id_ctr
                    else Some (Inl e)
                | Inr (v, idx2) \<Rightarrow> lwl_trial_walk data ms put_idx idx2 False invalid_id_ctr)))"

text \<open>
  The body of \<^verbatim>\<open>for offset in range(lwl_msg_set.max_msg_len)\<close>: every trial starts
  with \<^verbatim>\<open>first_get = True\<close>.
\<close>

definition lwl_trial_start :: "byte list \<Rightarrow> nat \<Rightarrow> nat \<Rightarrow> nat" where
  "lwl_trial_start data put_idx offset =
     (let start_idx = put_idx + offset
      in if start_idx \<ge> length data then start_idx - length data else start_idx)"

definition lwl_trial_count :: "byte list \<Rightarrow> LwlMsgSet \<Rightarrow> nat \<Rightarrow> nat \<Rightarrow> (py_error + nat) option" where
  "lwl_trial_count data ms put_idx offset =
     lwl_trial_walk data ms put_idx (lwl_trial_start data put_idx offset) True 0"

fun lwl_optimal_loop ::
  "byte list \<Rightarrow> LwlMsgSet \<Rightarrow> nat \<Rightarrow> nat list \<Rightarrow> nat \<Rightarrow> nat option \<Rightarrow> (py_error + nat option) option" where
  "lwl_optimal_loop data ms put_idx [] min_invalid_ids optimal_start_idx =
     Some (Inr optimal_start_idx)"
| "lwl_optimal_loop data ms put_idx (offset # offsets) min_invalid_ids optimal_start_idx =
     (case lwl_trial_count data ms put_idx offset of
        None \<Rightarrow> None
      | Some (Inl e) \<Rightarrow> Some (Inl e)
      | Some (Inr invalid_id_ctr) \<Rightarrow>
          if invalid_id_ctr < min_invalid_ids then
            lwl_optimal_loop data ms put_idx offsets invalid_id_ctr
              (Some (lwl_trial_start data put_idx offset))
          else lwl_optimal_loop data ms put_idx offsets min_invalid_ids optimal_start_idx)"

definition lwl_get_optimal_start_idx ::
  "byte list \<Rightarrow> LwlMsgSet \<Rightarrow> nat \<Rightarrow> (py_error + nat option) option" where
  "lwl_get_optimal_start_idx data ms put_idx =
     lwl_optimal_loop data ms put_idx [0..<max_msg_len ms] (length data) None"

text \<open>
  \<^verbatim>\<open>print_data(data, start_idx, put_idx)\<close>, in the same three loops as
  \<^verbatim>\<open>LwlPrinter.pretty_print\<close>; it collects the skipped bytes and prints nothing for
  them. \<open>start_idx\<close> is what \<^verbatim>\<open>get_optimal_start_idx\<close> returned: with None the first
  \<^verbatim>\<open>get_data_bytes\<close> raises TypeError at \<^verbatim>\<open>idx >= len(data)\<close>.
\<close>

partial_function (option) lwl_find_id ::
  "byte list \<Rightarrow> LwlMsgSet \<Rightarrow> nat \<Rightarrow> nat \<Rightarrow> bool \<Rightarrow> nat option \<Rightarrow> nat list
     \<Rightarrow> (py_error + id_search) option" where
  "lwl_find_id data ms put_idx idx first_get last_id skipped_data =
     (case get_data_bytes data idx 1 put_idx first_get of
        Inl e \<Rightarrow>
          if e = EOFError then Some (Inr (Exhausted last_id idx first_get)) else Some (Inl e)
      | Inr (i, idx1) \<Rightarrow>
          (case get_metadata ms i of
             None \<Rightarrow> lwl_find_id data ms put_idx idx1 False (Some i) (skipped_data @ [i])
           | Some msg_meta \<Rightarrow> Some (Inr (Found i idx idx1 skipped_data msg_meta))))"

fun lwl_get_args ::
  "byte list \<Rightarrow> nat \<Rightarrow> bool \<Rightarrow> string \<Rightarrow> nat \<Rightarrow> nat list \<Rightarrow> py_error + (nat list \<times> nat)" where
  "lwl_get_args data put_idx first_get [] idx arg_values = Inr (arg_values, idx)"
| "lwl_get_args data put_idx first_get (c # cs) idx arg_values =
     (case py_int_digit c of
        Inl e \<Rightarrow> Inl e
      | Inr width \<Rightarrow>
          (case get_data_bytes data idx width put_idx first_get of
             Inl e \<Rightarrow> Inl e
           | Inr (arg_value, idx1) \<Rightarrow>
               lwl_get_args data put_idx first_get cs idx1 (arg_values @ [arg_value])))"

partial_function (option) lwl_decode_loop ::
  "(string \<Rightarrow> nat list \<Rightarrow> py_error + string) \<Rightarrow> byte list \<Rightarrow> LwlMsgSet \<Rightarrow> nat \<Rightarrow> nat \<Rightarrow> bool
     \<Rightarrow> line list \<Rightarrow> (line list \<times> (py_error + nat option \<times> nat \<times> bool)) option" where
  "lwl_decode_loop py_format data ms put_idx idx first_get out =
     (case lwl_find_id data ms put_idx idx first_get None [] of
        None \<Rightarrow> None
      | Some (Inl e) \<Rightarrow> Some (out, Inl e)
      | Some (Inr (Exhausted last_id id_idx fg)) \<Rightarrow> Some (out, Inr (last_id, id_idx, fg))
      | Some (Inr (Found i id_idx idx1 skipped_data msg_meta)) \<Rightarrow>
          (case lwl_get_args data put_idx False (arg_bytes msg_meta) idx1 [] of
             Inl e \<Rightarrow>
               if e = EOFError then Some (out, Inr (Some i, id_idx, False))
               else Some (out, Inl e)
           | Inr (arg_values, idx2) \<Rightarrow>
               (case py_format (fmt msg_meta) arg_values of
                  Inl e \<Rightarrow> Some (out, Inl e)
                | Inr s \<Rightarrow>
                    lwl_decode_loop py_format data ms put_idx idx2 False (out @ [Message s]))))"

partial_function (option) lwl_unused_loop ::
  "byte list \<Rightarrow> nat \<Rightarrow> nat \<Rightarrow> bool \<Rightarrow> nat list \<Rightarrow> (py_error + nat list) option" where
  "lwl_unused_loop data put_idx idx first_get unused_data =
     (case get_data_bytes data idx 1 put_idx first_get of
        Inl e \<Rightarrow> if e = EOFError then Some (Inr unused_data) else Some (Inl e)
      | Inr (v, idx1) \<Rightarrow> lwl_unused_loop data put_idx idx1 first_get (unused_data @ [v]))"

definition lwl_report_unused ::
  "byte list \<Rightarrow> nat \<Rightarrow> line list \<times> (py_error + nat option \<times> nat \<times> bool)
     \<Rightarrow> (line list \<times> (py_error + unit)) option" where
  "lwl_report_unused data put_idx res =
     (case res of
        (out1, Inl e) \<Rightarrow> Some (out1, Inl e)
      | (out1, Inr (None, id_idx, fg)) \<Rightarrow> Some (out1, Inr ())
      | (out1, Inr (Some i, id_idx, fg)) \<Rightarrow>
          (case lwl_unused_loop data put_idx id_idx fg [] of
             None \<Rightarrow> None
           | Some (Inl e) \<Rightarrow> Some (out1, Inl e)
           | Some (Inr unused_data) \<Rightarrow> Some (out1 @ [Unused_data unused_data], Inr ())))"

definition print_data ::
  "(string \<Rightarrow> nat list \<Rightarrow> py_error + string) \<Rightarrow> byte list \<Rightarrow> LwlMsgSet \<Rightarrow> nat option \<Rightarrow> nat
     \<Rightarrow> (line list \<times> (py_error + unit)) option" where
  "print_data py_format data ms start_idx put_idx =
     (case start_idx of
        None \<Rightarrow> Some ([], Inl TypeError)
      | Some idx \<Rightarrow>
          (case lwl_decode_loop py_format data ms put_idx idx True [] of
             None \<Rightarrow> None
           | Some res \<Rightarrow> lwl_report_unused data put_idx res))"

section \<open>The source scanners: what they do with a complete LWL statement\<close>

text \<open>
  \<^verbatim>\<open>get_num_fmt_params(fmt)\<close>, the same in both files: the state is \<^verbatim>\<open>'idle'\<close> or
  \<^verbatim>\<open>'got_percent'\<close>; a character after a single percent sign counts one parameter
  unless it is a percent sign itself.
\<close>

fun fmt_params_loop :: "string \<Rightarrow> bool \<Rightarrow> nat \<Rightarrow> nat" where
  "fmt_params_loop [] got_percent num_params = num_params"
| "fmt_params_loop (c # cs) got_percent num_params =
     (if \<not> got_percent then fmt_params_loop cs (c = CHR ''%'') num_params
      else if c = CHR ''%'' then fmt_params_loop cs False num_params
      else fmt_params_loop cs False (num_params + 1))"

definition get_num_fmt_params :: "string \<Rightarrow> nat" where
  "get_num_fmt_params f = fmt_params_loop f False 0"

text \<open>
  lwl.py, \<^verbatim>\<open>parse_source_file\<close>, from the comparison of the format's parameter count
  with \<^verbatim>\<open>len(lwl_arg_bytes)\<close> to the end of the loop body. The statement's parts
  (base id, id offset, format, argument lengths) have been cut out of the text by the
  regular expressions before; they are the arguments here. The result is the message
  set and the error count after the statement.
\<close>

definition lwl_register_statement ::
  "LwlMsgSet \<Rightarrow> nat \<Rightarrow> string \<Rightarrow> nat \<Rightarrow> nat option \<Rightarrow> nat \<Rightarrow> string \<Rightarrow> string \<Rightarrow> string \<Rightarrow> nat
     \<Rightarrow> line list \<times> (py_error + LwlMsgSet \<times> nat)" where
  "lwl_register_statement ms error_count fp ln lwl_bid lwl_id_offset lwl_fmt lwl_arg_bytes st
     lwl_line_num =
     (if get_num_fmt_params lwl_fmt \<noteq> length lwl_arg_bytes then
        ([Err_fmt_args fp ln lwl_fmt lwl_arg_bytes], Inr (ms, error_count + 1))
      else
        case lwl_bid of
          None \<Rightarrow> ([Err_no_base_id fp ln], Inr (ms, error_count + 1))
        | Some bid \<Rightarrow>
            (case add_lwl_msg ms (bid + lwl_id_offset) lwl_fmt lwl_arg_bytes st fp lwl_line_num of
               (printed, Inl e) \<Rightarrow> (printed, Inl e)
             | (printed, Inr (ok, ms1)) \<Rightarrow>
                 (printed, Inr (ms1, if \<not> ok then error_count + 1 else error_count))))"

text \<open>
  logfmt.py, \<^verbatim>\<open>SourceParser.parse_source_file\<close>, from the comparison of the two byte
  counts to the end of the loop body. This scanner never calls
  \<^verbatim>\<open>get_num_fmt_params\<close>; a difference of the byte counts is printed and nothing
  else.
\<close>

definition logfmt_register_statement ::
  "LwlMsgSet \<Rightarrow> nat \<Rightarrow> string \<Rightarrow> nat \<Rightarrow> nat option \<Rightarrow> nat \<Rightarrow> string \<Rightarrow> nat \<Rightarrow> string \<Rightarrow> nat
     \<Rightarrow> string \<Rightarrow> nat \<Rightarrow> line list \<times> (py_error + LwlMsgSet \<times> nat)" where
  "logfmt_register_statement ms error_count fp ln lwl_base_id lwl_id_offset lwl_fmt
     lwl_num_arg_bytes lwl_arg_lengths num_arg_bytes_check st lwl_line_num =
     (let out0 = (if num_arg_bytes_check \<noteq> lwl_num_arg_bytes
                  then [Err_num_arg_bytes fp ln num_arg_bytes_check lwl_num_arg_bytes st]
                  else [])
      in case lwl_base_id of
           None \<Rightarrow> (out0 @ [Err_no_base_id fp ln], Inr (ms, error_count + 1))
         | Some bid \<Rightarrow>
             (case add_lwl_msg ms (bid + lwl_id_offset) lwl_fmt lwl_arg_lengths st fp
                     lwl_line_num of
                (printed, Inl e) \<Rightarrow> (out0 @ printed, Inl e)
              | (printed, Inr (ok, ms1)) \<Rightarrow>
                  (out0 @ printed, Inr (ms1, if \<not> ok then error_count + 1 else error_count))))"


section \<open>Two small catalogs for the examples\<close>

text \<open>
  \<open>tick_catalog\<close> holds one message, id 1, without arguments; \<open>tick_val_catalog\<close> adds
  id 2 with one four-byte argument. Both are what \<^verbatim>\<open>add_lwl_msg\<close> builds.
\<close>

definition msg_tick :: LwlMsg where
  "msg_tick = \<lparr>msg_id = 1, fmt = ''tick'', arg_bytes = '''', file_path = ''app.c'',
                line_num = 3, lwl_statement = ''tick'', num_arg_bytes = 0\<rparr>"

definition msg_val :: LwlMsg where
  "msg_val = \<lparr>msg_id = 2, fmt = ''val=%d'', arg_bytes = ''4'', file_path = ''app.c'',
               line_num = 3, lwl_statement = ''val'', num_arg_bytes = 4\<rparr>"

definition tick_catalog :: LwlMsgSet where
  "tick_catalog = \<lparr>lwl_msgs = [1 \<mapsto> msg_tick], max_msg_len = 1\<rparr>"

definition tick_val_catalog :: LwlMsgSet where
  "tick_val_catalog = \<lparr>lwl_msgs = [1 \<mapsto> msg_tick, 2 \<mapsto> msg_val], max_msg_len = 5\<rparr>"

text \<open>
  A blob of two sections: a log section of 19 bytes (a buffer of three bytes with put
  index 1) and the trailer.
\<close>

definition short_log_blob :: "byte list" where
  "short_log_blob =
     [0x01, 0x00, 0x0d, 0xf0, 0x13, 0x00, 0x00, 0x00,
      0x03, 0x00, 0x00, 0x00, 0x01, 0x00, 0x00, 0x00, 0x01, 0x01, 0x01,
      0x01, 0x00, 0xda, 0xc0, 0x08, 0x00, 0x00, 0x00]"

text \<open>
  A data array with a seven-byte buffer at offset 16: an unknown byte, id 1, an unknown
  byte, id 2 and three of its four argument bytes.
\<close>

definition recovery_blob :: "byte list" where
  "recovery_blob = replicate 16 0 @ [0xff, 0x01, 0xee, 0x02, 0x00, 0x00, 0x00]"

lemma py_int_digit_4 [simp]: "py_int_digit CHR ''4'' = Inr 4"
  by (simp add: py_int_digit_def)

lemma tick_catalog_built:
  "add_lwl_msg LwlMsgSet_init 1 ''tick'' '''' ''tick'' ''app.c'' 3 = ([], Inr (True, tick_catalog))"
  by (simp add: add_lwl_msg_def LwlMsgSet_init_def LwlMsg_init_def tick_catalog_def msg_tick_def)

lemma tick_val_catalog_built:
  "add_lwl_msg tick_catalog 2 ''val=%d'' ''4'' ''val'' ''app.c'' 3
     = ([], Inr (True, tick_val_catalog))"
  by (simp add: add_lwl_msg_def LwlMsg_init_def tick_catalog_def tick_val_catalog_def
      msg_val_def)

lemmas catalog_simps = tick_catalog_def tick_val_catalog_def msg_tick_def msg_val_def
  get_metadata_def


text \<open>
  The decoders take Python's \<^verbatim>\<open>%\<close> operator as a parameter. The examples need one
  such function: \<open>format_d\<close> is \<^verbatim>\<open>fmt % tuple(values)\<close> for a format whose
  conversions are \<^verbatim>\<open>%d\<close> and \<^verbatim>\<open>%%\<close> only, with TypeError when the values do not
  fit the format. It answers ValueError to any other conversion character and is used
  at formats without one.
\<close>

fun show_nat :: "nat \<Rightarrow> string" where
  "show_nat n =
     (if n < 10 then [''0123456789'' ! n]
      else show_nat (n div 10) @ [''0123456789'' ! (n mod 10)])"

declare show_nat.simps [simp del]

fun prepend :: "string \<Rightarrow> py_error + string \<Rightarrow> py_error + string" where
  "prepend s (Inl e) = Inl e"
| "prepend s (Inr r) = Inr (s @ r)"

fun format_d :: "string \<Rightarrow> nat list \<Rightarrow> py_error + string" where
  "format_d [] [] = Inr []"
| "format_d [] (v # vs) = Inl TypeError"
| "format_d [c] vs = (if c = CHR ''%'' then Inl ValueError else prepend [c] (format_d [] vs))"
| "format_d (c # k # cs) vs =
     (if c \<noteq> CHR ''%'' then prepend [c] (format_d (k # cs) vs)
      else if k = CHR ''%'' then prepend ''%'' (format_d cs vs)
      else if k = CHR ''d'' then
        (case vs of
           [] \<Rightarrow> Inl TypeError
         | v # rest \<Rightarrow> prepend (show_nat v) (format_d cs rest))
      else Inl ValueError)"

lemma format_d_tick [simp]: "format_d ''tick'' [] = Inr ''tick''"
  by simp

lemma format_d_val_7 [simp]: "format_d ''val=%d'' [7] = Inr ''val=7''"
  by (simp add: show_nat.simps)


lemma tick_val_catalog_entries:
  "get_metadata tick_val_catalog i = Some m \<Longrightarrow> m = msg_tick \<or> m = msg_val"
  by (auto simp: tick_val_catalog_def get_metadata_def split: if_splits)

lemma tick_val_catalog_digits:
  "\<forall>i m. get_metadata tick_val_catalog i = Some m
      \<longrightarrow> (\<exists>n. sum_arg_bytes (arg_bytes m) 0 = Inr n)"
proof (intro allI impI)
  fix i m
  assume "get_metadata tick_val_catalog i = Some m"
  from tick_val_catalog_entries[OF this] show "\<exists>n. sum_arg_bytes (arg_bytes m) 0 = Inr n"
    by (auto simp: msg_tick_def msg_val_def)
qed

lemma tick_val_catalog_formats:
  "\<forall>i m vals. get_metadata tick_val_catalog i = Some m \<longrightarrow> length vals = length (arg_bytes m)
      \<longrightarrow> (\<exists>s. format_d (fmt m) vals = Inr s)"
proof (intro allI impI)
  fix i m and vals :: "nat list"
  assume g: "get_metadata tick_val_catalog i = Some m" and l: "length vals = length (arg_bytes m)"
  from tick_val_catalog_entries[OF g] show "\<exists>s. format_d (fmt m) vals = Inr s"
  proof
    assume "m = msg_tick"
    with l show ?thesis by (simp add: msg_tick_def)
  next
    assume "m = msg_val"
    with l obtain v where "vals = [v]" by (auto simp: msg_val_def length_Suc_conv)
    with \<open>m = msg_val\<close> show ?thesis by (simp add: msg_val_def)
  qed
qed


section \<open>The shape of a decoded stream, as the specification words it\<close>

text \<open>
  What the streaming decode may print after the banner: decoded messages, each of them
  alone or directly after one skipped-data annotation that lists at least one byte; and
  at the very end, at most one unused-data annotation, which may itself follow a
  skipped-data annotation. No other line, and no annotation anywhere else.
\<close>

fun annotated_stream :: "line list \<Rightarrow> bool" where
  "annotated_stream [] = True"
| "annotated_stream (l # rest) =
     (case l of
        Message s \<Rightarrow> annotated_stream rest
      | Unused_data u \<Rightarrow> rest = []
      | Skipped_data sk \<Rightarrow>
          sk \<noteq> [] \<and>
          (case rest of
             [] \<Rightarrow> False
           | l2 # rest2 \<Rightarrow>
               (case l2 of
                  Message s \<Rightarrow> annotated_stream rest2
                | Unused_data u \<Rightarrow> rest2 = []
                | _ \<Rightarrow> False))
      | _ \<Rightarrow> False)"


section \<open>Lemmas on the byte readers\<close>

lemma circ_next_mod:
  "(idx::nat) < buf_len \<Longrightarrow> (if idx + 1 \<ge> buf_len then 0 else idx + 1) = (idx + 1) mod buf_len"
  by (cases "idx + 1 = buf_len") auto

lemma get_data_loop_numeral [simp]:
  "get_data_loop g_swab data_array (numeral k) idx acc shift =
     (if idx \<ge> length data_array then Inl EOFError
      else if g_swab then
        get_data_loop g_swab data_array (pred_numeral k) (idx + 1)
          (push_bit 8 acc + unat (data_array ! idx)) shift
      else
        get_data_loop g_swab data_array (pred_numeral k) (idx + 1)
          (acc + push_bit shift (unat (data_array ! idx))) (shift + 8))"
  by (simp add: numeral_eq_Suc)

lemma get_data_circ_loop_numeral [simp]:
  "get_data_circ_loop data_array bs bl put_idx first_get (numeral k) acc idx =
     (if idx = put_idx \<and> \<not> first_get then Inl EOFError
      else if bs + idx \<ge> length data_array then Inl IndexError
      else
        get_data_circ_loop data_array bs bl put_idx first_get (pred_numeral k)
          (push_bit 8 acc + unat (data_array ! (bs + idx)))
          (if idx + 1 \<ge> bl then 0 else idx + 1))"
  by (simp add: numeral_eq_Suc)

lemma get_bytes_left_circ_loop_numeral [simp]:
  "get_bytes_left_circ_loop bl put_idx first_get (numeral k) bytes_left idx =
     (if idx = put_idx \<and> \<not> first_get then (bytes_left, idx)
      else
        get_bytes_left_circ_loop bl put_idx first_get (pred_numeral k) (bytes_left + 1)
          (if idx + 1 \<ge> bl then 0 else idx + 1))"
  by (simp add: numeral_eq_Suc)

lemma get_data_bytes_loop_numeral [simp]:
  "get_data_bytes_loop data start_idx first_get (numeral k) d factor idx =
     (if idx = start_idx \<and> \<not> first_get then Inl EOFError
      else if idx \<ge> length data then Inl IndexError
      else
        get_data_bytes_loop data start_idx first_get (pred_numeral k)
          (d + unat (data ! idx) * factor) (factor * 256)
          (if idx + 1 \<ge> length data then 0 else idx + 1))"
  by (simp add: numeral_eq_Suc)

lemma circ_bytes_Suc:
  "circ_bytes data_array bs bl idx (Suc n) =
     unat (data_array ! (bs + idx mod bl)) # circ_bytes data_array bs bl ((idx + 1) mod bl) n"
proof -
  have "[0..<Suc n] = 0 # map Suc [0..<n]"
    by (simp add: upt_conv_Cons map_Suc_upt del: upt_Suc)
  moreover have "(idx + Suc k) mod bl = ((idx + 1) mod bl + k) mod bl" for k
    by (simp add: mod_add_left_eq)
  ultimately show ?thesis
    by (simp add: circ_bytes_def comp_def del: upt_Suc)
qed

lemma circ_bytes_numeral [simp]:
  "circ_bytes data_array bs bl idx (numeral k) =
     unat (data_array ! (bs + idx mod bl)) # circ_bytes data_array bs bl ((idx + 1) mod bl) (pred_numeral k)"
  by (simp add: numeral_eq_Suc circ_bytes_Suc)

lemma circ_bytes_0 [simp]: "circ_bytes data_array bs bl idx 0 = []"
  by (simp add: circ_bytes_def)

lemma length_circ_bytes: "length (circ_bytes data_array bs bl idx n) = n"
  by (simp add: circ_bytes_def)

lemma get_data_circ_loop_big_endian:
  "idx < bl \<Longrightarrow>
   get_data_circ_loop data_array bs bl put_idx first_get n acc idx = Inr (v, idx') \<Longrightarrow>
   v = acc * 256 ^ n + big_endian (circ_bytes data_array bs bl idx n) \<and> idx' = (idx + n) mod bl"
proof (induction n arbitrary: acc idx)
  case 0
  then show ?case by (simp add: circ_bytes_def)
next
  case (Suc n)
  let ?nxt = "(idx + 1) mod bl"
  from Suc.prems have step:
    "get_data_circ_loop data_array bs bl put_idx first_get n
       (acc * 256 + unat (data_array ! (bs + idx))) ?nxt = Inr (v, idx')"
    using circ_next_mod[of idx bl] by (auto simp: push_bit_eq_mult split: if_splits)
  have "0 < bl" using Suc.prems(1) by simp
  then have "?nxt < bl" by simp
  moreover have "(?nxt + n) mod bl = (idx + Suc n) mod bl"
    by (simp add: mod_add_left_eq)
  ultimately show ?case
    using Suc.IH[OF _ step] Suc.prems(1)
    by (simp add: circ_bytes_Suc length_circ_bytes algebra_simps)
qed

lemma get_data_bytes_loop_little_endian:
  "idx < length data \<Longrightarrow>
   get_data_bytes_loop data start_idx first_get n d factor idx = Inr (v, idx') \<Longrightarrow>
   v = d + factor * little_endian (circ_bytes data 0 (length data) idx n)
     \<and> idx' = (idx + n) mod length data"
proof (induction n arbitrary: d factor idx)
  case 0
  then show ?case by (simp add: circ_bytes_def)
next
  case (Suc n)
  let ?nxt = "(idx + 1) mod length data"
  from Suc.prems have step:
    "get_data_bytes_loop data start_idx first_get n
       (d + unat (data ! idx) * factor) (factor * 256) ?nxt = Inr (v, idx')"
    using circ_next_mod[of idx "length data"] by (auto split: if_splits)
  have "0 < length data" using Suc.prems(1) by (cases data) simp_all
  then have "?nxt < length data" by simp
  moreover have "(?nxt + n) mod length data = (idx + Suc n) mod length data"
    by (simp add: mod_add_left_eq)
  ultimately show ?case
    using Suc.IH[OF _ step] Suc.prems(1)
    by (simp add: circ_bytes_Suc algebra_simps)
qed


section \<open>Lemmas on the resynchronisation of logfmt.py\<close>

declare trial_walk.simps [simp del]

lemma get_data_circ_1_in_range:
  "idx < bl \<Longrightarrow> put_idx < bl \<Longrightarrow> bs + bl \<le> length d \<Longrightarrow>
   get_data_circ d idx 1 bs bl put_idx fg =
     (if idx = put_idx \<and> \<not> fg then Inl EOFError
      else Inr (unat (d ! (bs + idx)), if idx + 1 \<ge> bl then 0 else idx + 1))"
  by (auto simp: get_data_circ_def)

lemma get_bytes_left_circ_in_range:
  "idx < bl \<Longrightarrow> put_idx < bl \<Longrightarrow>
   get_bytes_left_circ idx n bs bl put_idx fg = Inr (get_bytes_left_circ_loop bl put_idx fg n 0 idx)"
  by (simp add: get_bytes_left_circ_def)

lemma trial_walk_ok:
  "idx < bl \<Longrightarrow> put_idx < bl \<Longrightarrow> bs + bl \<le> length d \<Longrightarrow>
   \<exists>c. trial_walk d ms bs bl put_idx idx fg ctr = Inr c \<and> ctr \<le> c
       \<and> c \<le> ctr + (if fg then bl else circ_dist bl put_idx idx)"
proof (induction d ms bs bl put_idx idx fg ctr rule: trial_walk.induct)
  case (1 d ms bs bl put_idx idx fg ctr)
  note rd = get_data_circ_1_in_range[OF "1.prems", of fg]
  show ?case
  proof (cases "idx = put_idx \<and> \<not> fg")
    case True
    then show ?thesis using rd by (subst trial_walk.simps) simp
  next
    case False
    let ?i = "unat (d ! (bs + idx))"
    let ?idx1 = "if idx + 1 \<ge> bl then 0 else idx + 1"
    from False rd have rd': "get_data_circ d idx 1 bs bl put_idx fg = Inr (?i, ?idx1)" by simp
    have i1: "?idx1 < bl" using "1.prems"(1) by auto
    have d1: "circ_dist bl put_idx ?idx1 < (if fg then bl else circ_dist bl put_idx idx)"
    proof (cases "idx = put_idx")
      case True
      with False circ_dist_lt[OF i1 "1.prems"(2)] show ?thesis by simp
    next
      case ne: False
      from circ_dist_next[OF "1.prems"(1,2) ne] circ_dist_lt[OF "1.prems"(1,2)]
      show ?thesis by auto
    qed
    show ?thesis
    proof (cases "get_metadata ms ?i")
      case None
      from "1.IH"(1)[OF rd' refl None i1 "1.prems"(2,3)]
      obtain c where c: "trial_walk d ms bs bl put_idx ?idx1 False (ctr + 1) = Inr c"
        "ctr + 1 \<le> c" "c \<le> ctr + 1 + circ_dist bl put_idx ?idx1" by auto
      have "trial_walk d ms bs bl put_idx idx fg ctr = Inr c"
        using rd' None c(1) by (subst trial_walk.simps) simp
      with c d1 show ?thesis by auto
    next
      case (Some m)
      obtain k idx2 where bl: "get_bytes_left_circ_loop bl put_idx False (num_arg_bytes m) 0 ?idx1 = (k, idx2)"
        by (cases "get_bytes_left_circ_loop bl put_idx False (num_arg_bytes m) 0 ?idx1")
      then have gbl: "get_bytes_left_circ ?idx1 (num_arg_bytes m) bs bl put_idx False = Inr (k, idx2)"
        using get_bytes_left_circ_in_range[OF i1 "1.prems"(2)] by simp
      note dist = get_bytes_left_circ_loop_dist[OF i1 "1.prems"(2) bl]
      show ?thesis
      proof (cases "k < num_arg_bytes m")
        case True
        have "trial_walk d ms bs bl put_idx idx fg ctr = Inr ctr"
          using rd' Some gbl True by (subst trial_walk.simps) simp
        then show ?thesis by simp
      next
        case nlt: False
        from dist have i2: "idx2 < bl" by simp
        from "1.IH"(2)[OF rd' refl Some gbl refl nlt i2 "1.prems"(2,3)]
        obtain c where c: "trial_walk d ms bs bl put_idx idx2 False ctr = Inr c"
          "ctr \<le> c" "c \<le> ctr + circ_dist bl put_idx idx2" by auto
        have "trial_walk d ms bs bl put_idx idx fg ctr = Inr c"
          using rd' Some gbl nlt c(1) by (subst trial_walk.simps) simp
        with c d1 dist show ?thesis by auto
      qed
    qed
  qed
qed


lemma optimal_loop_first_min:
  "\<forall>x\<in>set xs. trial_count d ms bs bl put_idx x = Inr (cnt x) \<Longrightarrow>
   \<exists>r. optimal_loop d ms bs bl put_idx xs oi os = Inr r \<and>
     (if \<forall>x\<in>set xs. oi \<le> cnt x then r = os
      else \<exists>i<length xs. r = Some (trial_start bl put_idx (xs ! i)) \<and> cnt (xs ! i) < oi
             \<and> (\<forall>j<length xs. cnt (xs ! i) \<le> cnt (xs ! j))
             \<and> (\<forall>j<i. cnt (xs ! i) < cnt (xs ! j)))"
proof (induction xs arbitrary: oi os)
  case Nil
  then show ?case by simp
next
  case (Cons x xs)
  from Cons.prems have tx: "trial_count d ms bs bl put_idx x = Inr (cnt x)"
    and rest: "\<forall>y\<in>set xs. trial_count d ms bs bl put_idx y = Inr (cnt y)" by auto
  show ?case
  proof (cases "cnt x < oi")
    case True
    from Cons.IH[OF rest, of "cnt x" "Some (trial_start bl put_idx x)"]
    obtain r where r: "optimal_loop d ms bs bl put_idx xs (cnt x) (Some (trial_start bl put_idx x)) = Inr r"
      and sp: "if \<forall>y\<in>set xs. cnt x \<le> cnt y then r = Some (trial_start bl put_idx x)
      else \<exists>i<length xs. r = Some (trial_start bl put_idx (xs ! i)) \<and> cnt (xs ! i) < cnt x
             \<and> (\<forall>j<length xs. cnt (xs ! i) \<le> cnt (xs ! j))
             \<and> (\<forall>j<i. cnt (xs ! i) < cnt (xs ! j))" by blast
    have run: "optimal_loop d ms bs bl put_idx (x # xs) oi os = Inr r"
      using tx True r by simp
    show ?thesis
    proof (cases "\<forall>y\<in>set xs. cnt x \<le> cnt y")
      case all: True
      with sp have "r = Some (trial_start bl put_idx x)" by simp
      moreover have "\<forall>j<length (x # xs). cnt x \<le> cnt ((x # xs) ! j)"
        using all by (auto simp: nth_Cons split: nat.splits)
      ultimately have "\<exists>i<length (x # xs). r = Some (trial_start bl put_idx ((x # xs) ! i))
             \<and> cnt ((x # xs) ! i) < oi
             \<and> (\<forall>j<length (x # xs). cnt ((x # xs) ! i) \<le> cnt ((x # xs) ! j))
             \<and> (\<forall>j<i. cnt ((x # xs) ! i) < cnt ((x # xs) ! j))"
        using True by (intro exI[of _ 0]) simp
      with run True show ?thesis by auto
    next
      case nall: False
      with sp obtain i where i: "i < length xs" "r = Some (trial_start bl put_idx (xs ! i))"
        "cnt (xs ! i) < cnt x" "\<forall>j<length xs. cnt (xs ! i) \<le> cnt (xs ! j)"
        "\<forall>j<i. cnt (xs ! i) < cnt (xs ! j)" by auto
      have a: "\<forall>j<length (x # xs). cnt (xs ! i) \<le> cnt ((x # xs) ! j)"
        using i(3,4) by (auto simp: nth_Cons split: nat.splits)
      have b: "\<forall>j<Suc i. cnt (xs ! i) < cnt ((x # xs) ! j)"
        using i(3,5) by (auto simp: nth_Cons split: nat.splits)
      have "\<exists>i<length (x # xs). r = Some (trial_start bl put_idx ((x # xs) ! i))
             \<and> cnt ((x # xs) ! i) < oi
             \<and> (\<forall>j<length (x # xs). cnt ((x # xs) ! i) \<le> cnt ((x # xs) ! j))
             \<and> (\<forall>j<i. cnt ((x # xs) ! i) < cnt ((x # xs) ! j))"
        using i(1,2,3) True a b by (intro exI[of _ "Suc i"]) simp
      with run True show ?thesis by auto
    qed
  next
    case False
    from Cons.IH[OF rest, of oi os]
    obtain r where r: "optimal_loop d ms bs bl put_idx xs oi os = Inr r"
      and sp: "if \<forall>y\<in>set xs. oi \<le> cnt y then r = os
      else \<exists>i<length xs. r = Some (trial_start bl put_idx (xs ! i)) \<and> cnt (xs ! i) < oi
             \<and> (\<forall>j<length xs. cnt (xs ! i) \<le> cnt (xs ! j))
             \<and> (\<forall>j<i. cnt (xs ! i) < cnt (xs ! j))" by blast
    have run: "optimal_loop d ms bs bl put_idx (x # xs) oi os = Inr r"
      using tx False r by simp
    show ?thesis
    proof (cases "\<forall>y\<in>set xs. oi \<le> cnt y")
      case True
      with sp run False show ?thesis by auto
    next
      case nall: False
      with sp obtain i where i: "i < length xs" "r = Some (trial_start bl put_idx (xs ! i))"
        "cnt (xs ! i) < oi" "\<forall>j<length xs. cnt (xs ! i) \<le> cnt (xs ! j)"
        "\<forall>j<i. cnt (xs ! i) < cnt (xs ! j)" by auto
      have a: "\<forall>j<length (x # xs). cnt (xs ! i) \<le> cnt ((x # xs) ! j)"
        using i(3,4) False by (auto simp: nth_Cons split: nat.splits)
      have b: "\<forall>j<Suc i. cnt (xs ! i) < cnt ((x # xs) ! j)"
        using i(3,5) False by (auto simp: nth_Cons split: nat.splits)
      have "\<exists>i<length (x # xs). r = Some (trial_start bl put_idx ((x # xs) ! i))
             \<and> cnt ((x # xs) ! i) < oi
             \<and> (\<forall>j<length (x # xs). cnt ((x # xs) ! i) \<le> cnt ((x # xs) ! j))
             \<and> (\<forall>j<i. cnt ((x # xs) ! i) < cnt ((x # xs) ! j))"
        using i(1,2,3) a b by (intro exI[of _ "Suc i"]) simp
      moreover have "\<not> (\<forall>y\<in>set (x # xs). oi \<le> cnt y)" using nall by simp
      ultimately show ?thesis using run by auto
    qed
  qed
qed

lemma trial_start_mod:
  "put_idx + t < 2 * bl \<Longrightarrow> trial_start bl put_idx t = (put_idx + t) mod bl"
  by (simp add: trial_start_def Let_def le_mod_geq)

lemma trial_start_lt:
  "put_idx < bl \<Longrightarrow> put_idx + t < 2 * bl \<Longrightarrow> trial_start bl put_idx t < bl"
  by (auto simp: trial_start_def Let_def)

lemma trial_count_ok:
  assumes "put_idx < bl" "put_idx + t < 2 * bl" "bs + bl \<le> length d"
  shows "\<exists>c. trial_count d ms bs bl put_idx t = Inr c \<and> (t \<noteq> 0 \<longrightarrow> c < bl) \<and> c \<le> bl"
proof -
  from trial_walk_ok[OF trial_start_lt[OF assms(1,2)] assms(1,3), of ms "t = 0" 0]
  obtain c where c: "trial_count d ms bs bl put_idx t = Inr c"
    "c \<le> (if t = 0 then bl else circ_dist bl put_idx (trial_start bl put_idx t))"
    by (auto simp: trial_count_def)
  moreover have "circ_dist bl put_idx (trial_start bl put_idx t) < bl"
    by (rule circ_dist_lt[OF trial_start_lt[OF assms(1,2)] assms(1)])
  ultimately show ?thesis by (auto split: if_splits)
qed


section \<open>A trial over a buffer without known ids\<close>

lemma circ_dist_next_put:
  "put_idx < bl \<Longrightarrow> Suc (circ_dist bl put_idx (if put_idx + 1 \<ge> bl then 0 else put_idx + 1)) = bl"
  by (auto simp: circ_dist_def)

lemma circ_dist_self [simp]: "circ_dist bl put_idx put_idx = 0"
  by (simp add: circ_dist_def)

lemma trial_walk_at_put:
  "put_idx < bl \<Longrightarrow> trial_walk d ms bs bl put_idx put_idx False ctr = Inr ctr"
  by (subst trial_walk.simps) (simp add: get_data_circ_def)

lemma trial_walk_all_unknown:
  "idx < bl \<Longrightarrow> put_idx < bl \<Longrightarrow> bs + bl \<le> length d \<Longrightarrow>
   \<forall>k<bl. get_metadata ms (unat (d ! (bs + k))) = None \<Longrightarrow>
   trial_walk d ms bs bl put_idx idx fg ctr
     = Inr (ctr + (if fg \<and> idx = put_idx then bl else circ_dist bl put_idx idx))"
proof (induction d ms bs bl put_idx idx fg ctr rule: trial_walk.induct)
  case (1 d ms bs bl put_idx idx fg ctr)
  note rd = get_data_circ_1_in_range[OF "1.prems"(1,2,3), of fg]
  show ?case
  proof (cases "idx = put_idx \<and> \<not> fg")
    case True
    then show ?thesis using trial_walk_at_put[OF "1.prems"(2)] by simp
  next
    case False
    let ?i = "unat (d ! (bs + idx))"
    let ?idx1 = "if idx + 1 \<ge> bl then 0 else idx + 1"
    from False rd have rd': "get_data_circ d idx 1 bs bl put_idx fg = Inr (?i, ?idx1)" by simp
    have i1: "?idx1 < bl" using "1.prems"(1) by auto
    have un: "get_metadata ms ?i = None" using "1.prems"(1,4) by simp
    from "1.IH"(1)[OF rd' refl un i1 "1.prems"(2,3,4)]
    have ih: "trial_walk d ms bs bl put_idx ?idx1 False (ctr + 1)
        = Inr (ctr + 1 + circ_dist bl put_idx ?idx1)" by simp
    have step: "trial_walk d ms bs bl put_idx idx fg ctr
        = trial_walk d ms bs bl put_idx ?idx1 False (ctr + 1)"
      using rd' un by (subst trial_walk.simps) simp
    have eq: "Suc (circ_dist bl put_idx ?idx1)
        = (if fg \<and> idx = put_idx then bl else circ_dist bl put_idx idx)"
    proof (cases "idx = put_idx")
      case True
      with False have fg by simp
      with True "1.prems"(2) show ?thesis by (auto simp: circ_dist_def)
    next
      case ne: False
      with "1.prems"(1,2) show ?thesis by (auto simp: circ_dist_def)
    qed
    have "trial_walk d ms bs bl put_idx idx fg ctr
        = Inr (ctr + Suc (circ_dist bl put_idx ?idx1))"
      unfolding step ih by simp
    then show ?thesis unfolding eq .
  qed
qed


section \<open>Lemmas on the section framer\<close>

lemmas magic_simps = magic_to_fault_type_def MOD_MAGIC_FAULT_def MOD_MAGIC_LWL_def
  MOD_MAGIC_TRAILER_def

lemmas process_simps = process_data_def process_loop.simps read_magic_def get_data_def
  magic_simps dispatch_section_def

text \<open>
  An unknown magic, read while the local \<open>g_swab\<close> of \<^verbatim>\<open>process_data\<close> is unbound (as
  it is from the start), ends the run with UnboundLocalError.
\<close>

lemma process_loop_unknown_magic:
  assumes "idx + 8 \<le> length data_array" and "get_data g_swab data_array idx 4 = Inr magic"
    and "magic_to_fault_type magic = None"
  shows "process_loop py_format g_swab fd ms data_array None idx out
           = Some (out, idx, Inl UnboundLocalError)"
  using assms by (subst process_loop.simps) (simp add: read_magic_def)

text \<open>
  A run over the eight bytes of a trailer header with length 0 meets the same state
  again after every section, so no run of it returns.
\<close>

lemma zero_length_section_loops:
  assumes "process_loop py_format g_swab fd ms data_array local_g_swab idx out = Some r"
  shows "\<not> (g_swab = False \<and> data_array = [0x01, 0x00, 0xda, 0xc0, 0x00, 0x00, 0x00, 0x00]
            \<and> idx = 0)"
  using assms
proof (induction arbitrary: rule: process_loop.raw_induct[rotated 1, consumes 1])
  case (1 process_loop py_format g_swab fd ms data_array local_g_swab idx out r)
  show ?case
  proof
    assume a: "g_swab = False \<and> data_array = [0x01, 0x00, 0xda, 0xc0, 0x00, 0x00, 0x00, 0x00]
            \<and> idx = 0"
    with 1(2) have "process_loop py_format False fd ms data_array local_g_swab 0
        (out @ [Rule, Text ''End of fault data'', Rule]) = Some r"
      by (simp add: read_magic_def get_data_def magic_simps dispatch_section_def)
    from 1(1)[OF this] a show False by simp
  qed
qed


text \<open>
  What a run that returns has consumed: \<open>idx\<close> never moves back nor past the end of
  the data; True is returned exactly at the end of the data and False before it; the
  lines printed before are kept.
\<close>

lemma process_loop_consumed:
  assumes "process_loop py_format g_swab fd ms data_array local_g_swab idx out = Some res"
  shows "idx \<le> length data_array \<longrightarrow>
     idx \<le> fst (snd res) \<and> fst (snd res) \<le> length data_array
     \<and> (snd (snd res) = Inr True \<longrightarrow> fst (snd res) = length data_array)
     \<and> (snd (snd res) = Inr False \<longrightarrow> fst (snd res) < length data_array)
     \<and> (\<exists>ls. fst res = out @ ls)"
  using assms
proof (induction arbitrary: rule: process_loop.raw_induct[rotated 1, consumes 1])
  case (1 process_loop py_format g_swab fd ms data_array local_g_swab idx out res)
  show ?case
  proof (cases "idx < length data_array")
    case False
    with 1(2) show ?thesis by auto
  next
    case lt: True
    show ?thesis
    proof (cases "idx + 8 > length data_array")
      case True
      with 1(2) lt show ?thesis by auto
    next
      case h8: False
      show ?thesis
      proof (cases "read_magic g_swab data_array local_g_swab idx")
        case (Magic_raised e)
        with 1(2) lt h8 show ?thesis by auto
      next
        case Magic_unknown
        with 1(2) lt h8 show ?thesis by auto
      next
        case (Magic_known magic l1)
        show ?thesis
        proof (cases "magic_to_fault_type magic")
          case None
          with 1(2) lt h8 Magic_known show ?thesis by auto
        next
          case (Some st)
          show ?thesis
          proof (cases "get_data g_swab data_array (idx + 4) 4")
            case (Inl e)
            with 1(2) lt h8 Magic_known Some show ?thesis by auto
          next
            case (Inr section_len)
            show ?thesis
            proof (cases "idx + section_len > length data_array")
              case True
              with 1(2) lt h8 Magic_known Some Inr show ?thesis by auto
            next
              case fits: False
              show ?thesis
              proof (cases "dispatch_section py_format g_swab fd ms data_array st idx section_len")
                case None
                with 1(2) lt h8 Magic_known Some Inr fits show ?thesis by auto
              next
                case (Some pr)
                obtain printed r where pr: "pr = (printed, r)" by (cases pr)
                show ?thesis
                proof (cases r)
                  case (Inl e)
                  with 1(2) lt h8 Magic_known \<open>magic_to_fault_type magic = Some st\<close> Inr fits
                    Some pr
                  show ?thesis by auto
                next
                  case (Inr u)
                  with 1(2) lt h8 Magic_known \<open>magic_to_fault_type magic = Some st\<close>
                    \<open>get_data g_swab data_array (idx + 4) 4 = Inr section_len\<close> fits Some pr
                  have "process_loop py_format g_swab fd ms data_array l1 (idx + section_len)
                      (out @ printed) = Some res" by simp
                  from 1(1)[OF this] fits show ?thesis by auto
                qed
              qed
            qed
          qed
        qed
      qed
    qed
  qed
qed


section \<open>Lemmas on the argument bytes\<close>

lemma sum_arg_bytes_shift:
  "sum_arg_bytes ab a = Inr n \<Longrightarrow> sum_arg_bytes ab (a + k) = Inr (n + k)"
proof (induction ab arbitrary: a)
  case Nil
  then show ?case by simp
next
  case (Cons c cs)
  then obtain w where w: "py_int_digit c = Inr w" and r: "sum_arg_bytes cs (a + w) = Inr n"
    by (auto split: sum.splits)
  from Cons.IH[OF r] w show ?case by (simp add: add.commute add.left_commute)
qed

lemma get_data_circ_next_idx:
  "get_data_circ d idx n bs bl put_idx fg = Inr (v, idx') \<Longrightarrow>
     idx < bl \<and> idx' = (idx + n) mod bl"
  using get_data_circ_loop_big_endian[of idx bl d bs put_idx fg n 0 v idx']
  by (auto simp: get_data_circ_def split: if_splits)

lemma get_args_consumes:
  "get_args d bs bl put_idx fg ab idx acc = Inr (vals, idx') \<Longrightarrow> idx < bl \<Longrightarrow>
     \<exists>n. sum_arg_bytes ab 0 = Inr n \<and> idx' = (idx + n) mod bl
         \<and> length vals = length acc + length ab"
proof (induction ab arbitrary: idx acc)
  case Nil
  then show ?case by simp
next
  case (Cons c cs)
  from Cons.prems(1) obtain w v idx1 where w: "py_int_digit c = Inr w"
    and rd: "get_data_circ d idx w bs bl put_idx fg = Inr (v, idx1)"
    and rest: "get_args d bs bl put_idx fg cs idx1 (acc @ [v]) = Inr (vals, idx')"
    by (auto split: sum.splits)
  from get_data_circ_next_idx[OF rd] have i1: "idx1 = (idx + w) mod bl" and lt: "idx < bl" by auto
  then have "idx1 < bl" by simp
  from Cons.IH[OF rest this] obtain n where n: "sum_arg_bytes cs 0 = Inr n"
    "idx' = (idx1 + n) mod bl" "length vals = length (acc @ [v]) + length cs" by auto
  from sum_arg_bytes_shift[OF n(1), of w] w have "sum_arg_bytes (c # cs) 0 = Inr (n + w)" by simp
  moreover have "idx' = (idx + (n + w)) mod bl"
    using n(2) i1 by (metis add.assoc add.commute mod_add_left_eq)
  ultimately show ?case using n(3) by simp
qed


section \<open>Lemmas on the streaming decode of logfmt.py\<close>

lemma get_data_circ_loop_ok:
  "idx < bl \<Longrightarrow> bs + bl \<le> length d \<Longrightarrow>
   get_data_circ_loop d bs bl put_idx fg n acc idx = Inl EOFError
   \<or> (\<exists>v idx'. get_data_circ_loop d bs bl put_idx fg n acc idx = Inr (v, idx') \<and> idx' < bl)"
proof (induction n arbitrary: acc idx)
  case 0
  then show ?case by simp
next
  case (Suc n)
  have "(if idx + 1 \<ge> bl then 0 else idx + 1) < bl" using Suc.prems(1) by auto
  from Suc.IH[OF this Suc.prems(2)] Suc.prems show ?case by auto
qed

lemma get_data_circ_ok:
  "idx < bl \<Longrightarrow> put_idx < bl \<Longrightarrow> bs + bl \<le> length d \<Longrightarrow>
   get_data_circ d idx n bs bl put_idx fg = Inl EOFError
   \<or> (\<exists>v idx'. get_data_circ d idx n bs bl put_idx fg = Inr (v, idx') \<and> idx' < bl)"
  using get_data_circ_loop_ok[of idx bl bs d put_idx fg n 0] by (simp add: get_data_circ_def)

lemma sum_arg_bytes_digits:
  "sum_arg_bytes ab a = Inr n \<Longrightarrow> \<forall>c\<in>set ab. \<exists>w. py_int_digit c = Inr w"
  by (induction ab arbitrary: a) (auto split: sum.splits)

lemma get_args_ok:
  "\<forall>c\<in>set ab. \<exists>w. py_int_digit c = Inr w \<Longrightarrow>
   idx < bl \<Longrightarrow> put_idx < bl \<Longrightarrow> bs + bl \<le> length d \<Longrightarrow>
   get_args d bs bl put_idx fg ab idx acc = Inl EOFError
   \<or> (\<exists>vals idx2. get_args d bs bl put_idx fg ab idx acc = Inr (vals, idx2) \<and> idx2 < bl
         \<and> length vals = length acc + length ab)"
proof (induction ab arbitrary: idx acc)
  case Nil
  then show ?case by simp
next
  case (Cons c cs)
  from Cons.prems(1) obtain w where w: "py_int_digit c = Inr w" by auto
  from get_data_circ_ok[OF Cons.prems(2,3,4), of w fg]
  show ?case
  proof
    assume "get_data_circ d idx w bs bl put_idx fg = Inl EOFError"
    with w show ?thesis by simp
  next
    assume "\<exists>v idx'. get_data_circ d idx w bs bl put_idx fg = Inr (v, idx') \<and> idx' < bl"
    then obtain v idx1 where rd: "get_data_circ d idx w bs bl put_idx fg = Inr (v, idx1)"
      and lt: "idx1 < bl" by auto
    from Cons.prems(1) have rest: "\<forall>c\<in>set cs. \<exists>w. py_int_digit c = Inr w" by simp
    from Cons.IH[OF rest lt Cons.prems(3,4), of "acc @ [v]"] w rd show ?thesis by auto
  qed
qed

lemma find_id_cases:
  "idx < bl \<Longrightarrow> put_idx < bl \<Longrightarrow> bs + bl \<le> length d \<Longrightarrow>
   (\<exists>l'. find_id d ms bs bl put_idx idx fg l s = Inr (Exhausted l' put_idx False))
   \<or> (\<exists>i id_idx idx1 sk m k.
         find_id d ms bs bl put_idx idx fg l s = Inr (Found i id_idx idx1 sk m)
         \<and> sk = s @ circ_bytes d bs bl idx k
         \<and> (\<forall>b\<in>set (circ_bytes d bs bl idx k). get_metadata ms b = None)
         \<and> id_idx = (idx + k) mod bl \<and> i = unat (d ! (bs + id_idx))
         \<and> get_metadata ms i = Some m
         \<and> idx1 = (if id_idx + 1 \<ge> bl then 0 else id_idx + 1))"
proof (induction d ms bs bl put_idx idx fg l s rule: find_id.induct)
  case (1 d ms bs bl put_idx idx fg l s)
  note rd = get_data_circ_1_in_range[OF "1.prems"(1,2,3), of fg]
  show ?case
  proof (cases "idx = put_idx \<and> \<not> fg")
    case True
    then have "find_id d ms bs bl put_idx idx fg l s = Inr (Exhausted l put_idx False)"
      using rd by (subst find_id.simps) simp
    then show ?thesis by blast
  next
    case False
    let ?i = "unat (d ! (bs + idx))"
    let ?idx1 = "if idx + 1 \<ge> bl then 0 else idx + 1"
    from False rd have rd': "get_data_circ d idx 1 bs bl put_idx fg = Inr (?i, ?idx1)" by simp
    have i1: "?idx1 < bl" using "1.prems"(1) by auto
    have nx: "?idx1 = (idx + 1) mod bl" using circ_next_mod[OF "1.prems"(1)] .
    show ?thesis
    proof (cases "get_metadata ms ?i")
      case None
      have step: "find_id d ms bs bl put_idx idx fg l s
          = find_id d ms bs bl put_idx ?idx1 False (Some ?i) (s @ [?i])"
        using rd' None by (subst find_id.simps) simp
      from "1.IH"[OF rd' refl None i1 "1.prems"(2,3)]
      show ?thesis
      proof
        assume "\<exists>l'. find_id d ms bs bl put_idx ?idx1 False (Some ?i) (s @ [?i])
            = Inr (Exhausted l' put_idx False)"
        with step show ?thesis by simp
      next
        assume "\<exists>i id_idx idx1 sk m k.
         find_id d ms bs bl put_idx ?idx1 False (Some ?i) (s @ [?i]) = Inr (Found i id_idx idx1 sk m)
         \<and> sk = (s @ [?i]) @ circ_bytes d bs bl ?idx1 k
         \<and> (\<forall>b\<in>set (circ_bytes d bs bl ?idx1 k). get_metadata ms b = None)
         \<and> id_idx = (?idx1 + k) mod bl \<and> i = unat (d ! (bs + id_idx))
         \<and> get_metadata ms i = Some m
         \<and> idx1 = (if id_idx + 1 \<ge> bl then 0 else id_idx + 1)"
        then obtain i id_idx idx1 sk m k where f:
          "find_id d ms bs bl put_idx ?idx1 False (Some ?i) (s @ [?i]) = Inr (Found i id_idx idx1 sk m)"
          "sk = (s @ [?i]) @ circ_bytes d bs bl ?idx1 k"
          "\<forall>b\<in>set (circ_bytes d bs bl ?idx1 k). get_metadata ms b = None"
          "id_idx = (?idx1 + k) mod bl" "i = unat (d ! (bs + id_idx))"
          "get_metadata ms i = Some m"
          "idx1 = (if id_idx + 1 \<ge> bl then 0 else id_idx + 1)" by blast
        have cb: "circ_bytes d bs bl idx (Suc k) = ?i # circ_bytes d bs bl ?idx1 k"
          using "1.prems"(1) by (simp only: circ_bytes_Suc nx) simp
        have "sk = s @ circ_bytes d bs bl idx (Suc k)" using f(2) cb by simp
        moreover have "\<forall>b\<in>set (circ_bytes d bs bl idx (Suc k)). get_metadata ms b = None"
          using f(3) None cb by simp
        moreover have "id_idx = (idx + Suc k) mod bl"
          using f(4) nx by (simp add: mod_add_left_eq)
        ultimately have "find_id d ms bs bl put_idx idx fg l s = Inr (Found i id_idx idx1 sk m)
         \<and> sk = s @ circ_bytes d bs bl idx (Suc k)
         \<and> (\<forall>b\<in>set (circ_bytes d bs bl idx (Suc k)). get_metadata ms b = None)
         \<and> id_idx = (idx + Suc k) mod bl \<and> i = unat (d ! (bs + id_idx))
         \<and> get_metadata ms i = Some m
         \<and> idx1 = (if id_idx + 1 \<ge> bl then 0 else id_idx + 1)"
          using step f(1,5,6,7) by (intro conjI) simp_all
        then show ?thesis by - (rule disjI2, (rule exI)+, assumption)
      qed
    next
      case (Some m)
      have "find_id d ms bs bl put_idx idx fg l s = Inr (Found ?i idx ?idx1 s m)"
        using rd' Some by (subst find_id.simps) simp
      moreover have "s = s @ circ_bytes d bs bl idx 0" by simp
      moreover have "idx = (idx + 0) mod bl" using "1.prems"(1) by simp
      moreover have "\<forall>b\<in>set (circ_bytes d bs bl idx 0). get_metadata ms b = None" by simp
      ultimately have "find_id d ms bs bl put_idx idx fg l s = Inr (Found ?i idx ?idx1 s m)
         \<and> s = s @ circ_bytes d bs bl idx 0
         \<and> (\<forall>b\<in>set (circ_bytes d bs bl idx 0). get_metadata ms b = None)
         \<and> idx = (idx + 0) mod bl \<and> ?i = unat (d ! (bs + idx))
         \<and> get_metadata ms ?i = Some m
         \<and> ?idx1 = (if idx + 1 \<ge> bl then 0 else idx + 1)"
        using Some by (intro conjI) simp_all
      then show ?thesis by - (rule disjI2, (rule exI)+, assumption)
    qed
  qed
qed


lemma circ_dist_0: "idx < bl \<Longrightarrow> put_idx < bl \<Longrightarrow> circ_dist bl put_idx idx = 0 \<Longrightarrow> idx = put_idx"
  by (auto simp: circ_dist_def split: if_splits)

lemma unused_loop_ok:
  "idx < bl \<Longrightarrow> put_idx < bl \<Longrightarrow> bs + bl \<le> length d \<Longrightarrow>
   unused_loop d bs bl put_idx idx False acc
     = Some (Inr (acc @ circ_bytes d bs bl idx (circ_dist bl put_idx idx)))"
proof (induction "circ_dist bl put_idx idx" arbitrary: idx acc)
  case 0
  then have "idx = put_idx" using circ_dist_0 by simp
  then show ?case
    using get_data_circ_1_in_range[OF "0.prems", of False]
    by (subst unused_loop.simps) simp
next
  case (Suc n)
  then have ne: "idx \<noteq> put_idx" by auto
  let ?i = "unat (d ! (bs + idx))"
  let ?idx1 = "if idx + 1 \<ge> bl then 0 else idx + 1"
  have rd: "get_data_circ d idx 1 bs bl put_idx False = Inr (?i, ?idx1)"
    using get_data_circ_1_in_range[OF Suc.prems, of False] ne by simp
  have i1: "?idx1 < bl" using Suc.prems(1) by auto
  have dn: "n = circ_dist bl put_idx ?idx1"
    using circ_dist_next[OF Suc.prems(1,2) ne] Suc.hyps(2) by simp
  have step: "unused_loop d bs bl put_idx idx False acc
      = unused_loop d bs bl put_idx ?idx1 False (acc @ [?i])"
    using rd by (subst unused_loop.simps) simp
  have cb: "circ_bytes d bs bl idx (Suc n) = ?i # circ_bytes d bs bl ?idx1 n"
    using Suc.prems(1) circ_next_mod[OF Suc.prems(1)] by (simp only: circ_bytes_Suc) simp
  from Suc.hyps(1)[OF dn i1 Suc.prems(2,3), of "acc @ [?i]"] step cb dn Suc.hyps(2)
  show ?case by simp
qed

lemma stream_decode_ok:
  "put_idx < bl \<Longrightarrow> bs + bl \<le> length d \<Longrightarrow>
   \<forall>i m. get_metadata ms i = Some m \<longrightarrow> (\<exists>n. sum_arg_bytes (arg_bytes m) 0 = Inr n) \<Longrightarrow>
   \<forall>i m vals. get_metadata ms i = Some m \<longrightarrow> length vals = length (arg_bytes m)
      \<longrightarrow> (\<exists>s. pf (fmt m) vals = Inr s) \<Longrightarrow>
   idx < bl \<Longrightarrow>
   \<exists>ls. stream_decode pf d ms bs bl put_idx idx fg out = Some (out @ ls, Inr ())
        \<and> annotated_stream ls"
proof (induction pf d ms bs bl put_idx idx fg out rule: decode_loop.induct)
  case (1 pf d ms bs bl put_idx idx fg out)
  from find_id_cases[OF "1.prems"(5,1,2), of ms fg None "[]"]
  show ?case
  proof
    assume "\<exists>l'. find_id d ms bs bl put_idx idx fg None [] = Inr (Exhausted l' put_idx False)"
    then obtain l' where ex: "find_id d ms bs bl put_idx idx fg None []
        = Inr (Exhausted l' put_idx False)" by blast
    then have dl: "decode_loop pf d ms bs bl put_idx idx fg out = (out, Inr (l', put_idx, False))"
      by (subst decode_loop.simps) simp
    show ?thesis
    proof (cases l')
      case None
      with dl have "stream_decode pf d ms bs bl put_idx idx fg out = Some (out @ [], Inr ())"
        by (simp add: stream_decode_def report_unused_def)
      then show ?thesis by (intro exI[of _ "[]"]) simp
    next
      case (Some i)
      with dl unused_loop_ok[OF "1.prems"(1,1,2), of "[]"]
      have "stream_decode pf d ms bs bl put_idx idx fg out = Some (out @ [Unused_data []], Inr ())"
        by (simp add: stream_decode_def report_unused_def)
      then show ?thesis by (intro exI[of _ "[Unused_data []]"]) simp
    qed
  next
    assume "\<exists>i id_idx idx1 sk m k.
         find_id d ms bs bl put_idx idx fg None [] = Inr (Found i id_idx idx1 sk m)
         \<and> sk = [] @ circ_bytes d bs bl idx k
         \<and> (\<forall>b\<in>set (circ_bytes d bs bl idx k). get_metadata ms b = None)
         \<and> id_idx = (idx + k) mod bl \<and> i = unat (d ! (bs + id_idx))
         \<and> get_metadata ms i = Some m
         \<and> idx1 = (if id_idx + 1 \<ge> bl then 0 else id_idx + 1)"
    then obtain i id_idx idx1 sk m k where f:
      "find_id d ms bs bl put_idx idx fg None [] = Inr (Found i id_idx idx1 sk m)"
      "id_idx = (idx + k) mod bl" "get_metadata ms i = Some m"
      "idx1 = (if id_idx + 1 \<ge> bl then 0 else id_idx + 1)" by blast
    have idlt: "id_idx < bl" using f(2) "1.prems"(5) by simp
    then have i1: "idx1 < bl" using f(4) by auto
    define out1 where "out1 = (if sk \<noteq> [] then out @ [Skipped_data sk] else out)"
    define pre where "pre = (if sk \<noteq> [] then [Skipped_data sk] else [])"
    have o1: "out1 = out @ pre" by (simp add: out1_def pre_def)
    from "1.prems"(3) f(3) obtain n where "sum_arg_bytes (arg_bytes m) 0 = Inr n" by blast
    from sum_arg_bytes_digits[OF this]
    have dg: "\<forall>c\<in>set (arg_bytes m). \<exists>w. py_int_digit c = Inr w" .
    from get_args_ok[OF dg i1 "1.prems"(1,2), of False "[]"]
    show ?thesis
    proof
      assume eof: "get_args d bs bl put_idx False (arg_bytes m) idx1 [] = Inl EOFError"
      have dl: "decode_loop pf d ms bs bl put_idx idx fg out = (out1, Inr (Some i, id_idx, False))"
        using f(1) eof by (subst decode_loop.simps) (simp add: out1_def)
      with unused_loop_ok[OF idlt "1.prems"(1,2), of "[]"]
      have "stream_decode pf d ms bs bl put_idx idx fg out
          = Some (out @ (pre @ [Unused_data (circ_bytes d bs bl id_idx
                                   (circ_dist bl put_idx id_idx))]), Inr ())"
        by (simp add: stream_decode_def report_unused_def o1)
      moreover have "annotated_stream (pre @ [Unused_data (circ_bytes d bs bl id_idx
                                   (circ_dist bl put_idx id_idx))])"
        by (simp add: pre_def)
      ultimately show ?thesis by blast
    next
      assume "\<exists>vals idx2. get_args d bs bl put_idx False (arg_bytes m) idx1 [] = Inr (vals, idx2)
          \<and> idx2 < bl \<and> length vals = length ([]::nat list) + length (arg_bytes m)"
      then obtain vals idx2 where ga:
        "get_args d bs bl put_idx False (arg_bytes m) idx1 [] = Inr (vals, idx2)"
        "idx2 < bl" "length vals = length (arg_bytes m)" by auto
      from "1.prems"(4) f(3) ga(3) obtain s where fm: "pf (fmt m) vals = Inr s" by blast
      have dl: "decode_loop pf d ms bs bl put_idx idx fg out
          = decode_loop pf d ms bs bl put_idx idx2 False (out1 @ [Message s])"
        using f(1) ga(1) fm by (subst decode_loop.simps) (simp add: out1_def)
      from "1.IH"[OF f(1) refl out1_def ga(1) refl fm "1.prems"(1,2,3,4) ga(2)]
      obtain ls where ls: "stream_decode pf d ms bs bl put_idx idx2 False (out1 @ [Message s])
          = Some ((out1 @ [Message s]) @ ls, Inr ())" "annotated_stream ls" by blast
      have "stream_decode pf d ms bs bl put_idx idx fg out
          = Some (out @ (pre @ Message s # ls), Inr ())"
        using ls(1) dl by (simp add: stream_decode_def o1)
      moreover have "annotated_stream (pre @ Message s # ls)"
        using ls(2) by (simp add: pre_def)
      ultimately show ?thesis by blast
    qed
  qed
qed


section \<open>The id search, from the bytes of the buffer\<close>

text \<open>
  When \<open>k\<close> unknown id bytes are followed by a known one, and every read of them is
  permitted (none stands on \<open>put_idx\<close>, but for an exempt first read), the search
  finds the known id and has collected the \<open>k\<close> bytes.
\<close>

lemma find_id_found:
  "idx < bl \<Longrightarrow> put_idx < bl \<Longrightarrow> bs + bl \<le> length d \<Longrightarrow>
   \<forall>j<k. get_metadata ms (unat (d ! (bs + (idx + j) mod bl))) = None \<Longrightarrow>
   get_metadata ms (unat (d ! (bs + (idx + k) mod bl))) = Some m \<Longrightarrow>
   \<forall>j\<le>k. (idx + j) mod bl = put_idx \<longrightarrow> j = 0 \<and> fg \<Longrightarrow>
   find_id d ms bs bl put_idx idx fg l s
     = Inr (Found (unat (d ! (bs + (idx + k) mod bl))) ((idx + k) mod bl)
              (if (idx + k) mod bl + 1 \<ge> bl then 0 else (idx + k) mod bl + 1)
              (s @ circ_bytes d bs bl idx k) m)"
proof (induction k arbitrary: idx fg l s)
  case 0
  then have ok: "idx \<noteq> put_idx \<or> fg" by auto
  from "0.prems"(5) "0.prems"(1) have kn: "get_metadata ms (unat (d ! (bs + idx))) = Some m"
    by simp
  from get_data_circ_1_in_range[OF "0.prems"(1,2,3), of fg] ok kn "0.prems"(1)
  show ?case by (subst find_id.simps) auto
next
  case (Suc k)
  let ?i = "unat (d ! (bs + idx))"
  let ?idx1 = "if idx + 1 \<ge> bl then 0 else idx + 1"
  have nx: "?idx1 = (idx + 1) mod bl" using circ_next_mod[OF Suc.prems(1)] .
  have i1: "?idx1 < bl" using Suc.prems(1) by auto
  from Suc.prems(6) Suc.prems(1) have ok: "idx \<noteq> put_idx \<or> fg" by force
  from Suc.prems(4) Suc.prems(1) have un: "get_metadata ms ?i = None" by force
  have sh: "(?idx1 + j) mod bl = (idx + Suc j) mod bl" for j
    unfolding nx by (simp add: mod_add_left_eq)
  have a: "\<forall>j<k. get_metadata ms (unat (d ! (bs + (?idx1 + j) mod bl))) = None"
    using Suc.prems(4) unfolding sh by auto
  have b: "get_metadata ms (unat (d ! (bs + (?idx1 + k) mod bl))) = Some m"
    using Suc.prems(5) unfolding sh by simp
  have c: "\<forall>j\<le>k. (?idx1 + j) mod bl = put_idx \<longrightarrow> j = 0 \<and> False"
    using Suc.prems(6) unfolding sh by auto
  have step: "find_id d ms bs bl put_idx idx fg l s
      = find_id d ms bs bl put_idx ?idx1 False (Some ?i) (s @ [?i])"
    using get_data_circ_1_in_range[OF Suc.prems(1,2,3), of fg] ok un
    by (subst find_id.simps) auto
  have cb: "circ_bytes d bs bl idx (Suc k) = ?i # circ_bytes d bs bl ?idx1 k"
    using Suc.prems(1) nx by (simp only: circ_bytes_Suc) simp
  from Suc.IH[OF i1 Suc.prems(2,3) a b c, of "Some ?i" "s @ [?i]"]
  show ?case unfolding step sh cb by simp
qed


lemma circ_bytes_empty_iff: "circ_bytes d bs bl idx k = [] \<longleftrightarrow> k = 0"
  using length_circ_bytes[of d bs bl idx k] by (metis length_0_conv)


section \<open>Claim C1\<close>

text \<open>
  C1: the byte order is flipped at most once per blob, when a magic is not recognised,
  and every later read uses the flipped order. The code attempts the flip and misses it:
  \<^verbatim>\<open>process_data\<close> assigns \<^verbatim>\<open>g_swab\<close> without declaring it global, so the statement
  \<^verbatim>\<open>g_swab = not g_swab\<close> reads an unbound local and raises UnboundLocalError, and the
  flag \<^verbatim>\<open>Data.get_data\<close> reads never changes. At a blob that holds the trailer section
  in big-endian order the little-endian read of the magic is not in the table (the
  big-endian read would be), and the run ends with the exception: no byte is consumed
  and nothing is printed.
\<close>

theorem C1_unknown_magic_raises_unbound_local:
  "get_data False [0xc0, 0xda, 0x00, 0x01, 0x00, 0x00, 0x00, 0x08] 0 4 = Inr 0x0100dac0
   \<and> magic_to_fault_type 0x0100dac0 = None
   \<and> get_data True [0xc0, 0xda, 0x00, 0x01, 0x00, 0x00, 0x00, 0x08] 0 4 = Inr MOD_MAGIC_TRAILER
   \<and> process_data py_format False fd ms [0xc0, 0xda, 0x00, 0x01, 0x00, 0x00, 0x00, 0x08]
       = Some ([], 0, Inl UnboundLocalError)"
  by (simp add: process_simps)


section \<open>Claim C2\<close>

text \<open>
  C2 as stated: every circular multi-byte read composes its bytes big-endian. The read
  of lwl.py does not: at the buffer \<open>[0x01, 0x02]\<close> a two-byte read from index 0 gives
  \<open>0x0201\<close>, the little-endian value, where big-endian is \<open>0x0102\<close>.
\<close>

theorem C2_get_data_bytes_counterexample:
  "get_data_bytes [0x01, 0x02] 0 2 0 True = Inr (0x0201, 0)
   \<and> big_endian (circ_bytes [0x01, 0x02] 0 2 0 2) = 0x0102"
  by (simp add: get_data_bytes_def circ_bytes_Suc)

text \<open>
  C2, amended: a read of \<^verbatim>\<open>Data.get_data_circ\<close> (logfmt.py) that returns, returns the
  big-endian value of the \<open>num_bytes\<close> bytes of the circular buffer from \<open>idx\<close> on, for
  every width and every start, and the index after them; the function has no access to
  the section byte order \<open>g_swab\<close>. A read of \<^verbatim>\<open>get_data_bytes\<close> (lwl.py) that
  returns, returns the little-endian value of the same bytes.
\<close>

theorem C2_circular_read_byte_order:
  "(get_data_circ data_array idx num_bytes buf_start_idx buf_len put_idx first_get = Inr (v, idx')
      \<longrightarrow> v = big_endian (circ_bytes data_array buf_start_idx buf_len idx num_bytes)
        \<and> idx' = (idx + num_bytes) mod buf_len)
   \<and> (get_data_bytes data idx num_bytes start_idx first_get = Inr (w, idx'')
      \<longrightarrow> w = little_endian (circ_bytes data 0 (length data) idx num_bytes)
        \<and> idx'' = (idx + num_bytes) mod length data)"
proof (intro conjI impI)
  assume r: "get_data_circ data_array idx num_bytes buf_start_idx buf_len put_idx first_get = Inr (v, idx')"
  then have lt: "idx < buf_len"
    by (auto simp: get_data_circ_def split: if_splits)
  from r have "get_data_circ_loop data_array buf_start_idx buf_len put_idx first_get num_bytes 0 idx
      = Inr (v, idx')"
    by (auto simp: get_data_circ_def split: if_splits)
  from get_data_circ_loop_big_endian[OF lt this]
  show "v = big_endian (circ_bytes data_array buf_start_idx buf_len idx num_bytes)"
    and "idx' = (idx + num_bytes) mod buf_len"
    by simp_all
next
  assume r: "get_data_bytes data idx num_bytes start_idx first_get = Inr (w, idx'')"
  then have lt: "idx < length data"
    by (auto simp: get_data_bytes_def split: if_splits)
  from r have "get_data_bytes_loop data start_idx first_get num_bytes 0 1 idx = Inr (w, idx'')"
    by (auto simp: get_data_bytes_def split: if_splits)
  from get_data_bytes_loop_little_endian[OF lt this]
  show "w = little_endian (circ_bytes data 0 (length data) idx num_bytes)"
    and "idx'' = (idx + num_bytes) mod length data"
    by simp_all
qed

text \<open>
  A witness: a four-byte argument read that wraps around the end of a five-byte buffer
  placed at offset 16 of the data array.
\<close>

theorem C2_circular_read_byte_order_witness:
  "get_data_circ (replicate 16 0 @ [0x56, 0x78, 0x01, 0x12, 0x34]) 3 4 16 5 2 False
     = Inr (0x12345678, 2)
   \<and> big_endian (circ_bytes (replicate 16 0 @ [0x56, 0x78, 0x01, 0x12, 0x34]) 16 5 3 4)
       = 0x12345678
   \<and> get_data_bytes [0x56, 0x78, 0x01, 0x12, 0x34] 3 4 2 False = Inr (0x78563412, 2)
   \<and> little_endian (circ_bytes [0x56, 0x78, 0x01, 0x12, 0x34] 0 5 3 4) = 0x78563412"
proof -
  have a: "get_data_circ (replicate 16 0 @ [0x56, 0x78, 0x01, 0x12, 0x34]) 3 4 16 5 2 False
     = Inr (0x12345678, 2)"
    by (simp add: get_data_circ_def push_bit_eq_mult nth_append)
  have b: "get_data_bytes [0x56, 0x78, 0x01, 0x12, 0x34] 3 4 2 False = Inr (0x78563412, 2)"
    by (simp add: get_data_bytes_def)
  from C2_circular_read_byte_order[of "replicate 16 0 @ [0x56, 0x78, 0x01, 0x12, 0x34]"
      3 4 16 5 2 False "0x12345678" 2 "[0x56, 0x78, 0x01, 0x12, 0x34]" 2 "0x78563412" 2]
    a b
  show ?thesis by (simp add: circ_bytes_Suc nth_append)
qed


section \<open>Claim C3\<close>

text \<open>
  C3 as stated: for every buffer and catalog the resynchronisation runs the trials of
  the offsets 0 to W inclusive. The resynchronisation of lwl.py runs the offsets 0 to
  W - 1 only. With the one-byte message of \<open>tick_catalog\<close> (W = 1), the buffer
  \<open>[0xff, 0x01]\<close> and put index 0, the trial of offset 1 has no invalid id and the
  trial of offset 0 has one, but lwl.py returns start index 0.
\<close>

theorem C3_lwl_py_counterexample:
  "max_msg_len tick_catalog = 1
   \<and> lwl_trial_count [0xff, 0x01] tick_catalog 0 0 = Some (Inr 1)
   \<and> lwl_trial_count [0xff, 0x01] tick_catalog 0 1 = Some (Inr 0)
   \<and> lwl_get_optimal_start_idx [0xff, 0x01] tick_catalog 0 = Some (Inr (Some 0))"
  by (simp add: lwl_get_optimal_start_idx_def catalog_simps lwl_trial_count_def
      lwl_trial_start_def lwl_trial_walk.simps get_data_bytes_def)

text \<open>
  The resynchronisation of logfmt.py subtracts \<open>buf_len\<close> from the start index once,
  so a trial whose offset reaches past two buffer lengths starts outside the buffer and
  its first read raises IndexError; and it accepts a trial only when its count is below
  \<open>buf_len\<close>, so with an empty catalog (W = 0) and a full buffer it returns None. The
  amended claim excludes both.
\<close>

lemma get_optimal_start_idx_short_buffer_raises:
  "get_optimal_start_idx (replicate 16 0 @ [0x01, 0x01, 0x01, 0x01]) tick_val_catalog 16 4 3
     = Inl IndexError"
  by (simp add: get_optimal_start_idx_def catalog_simps trial_count_def trial_start_def
      trial_walk.simps get_data_circ_def get_bytes_left_circ_def nth_append upt_rec)

lemma get_optimal_start_idx_empty_catalog_none:
  "get_optimal_start_idx (replicate 16 0 @ [0x01, 0x01, 0x01, 0x01]) LwlMsgSet_init 16 4 3
     = Inr None"
  by (simp add: get_optimal_start_idx_def LwlMsgSet_init_def get_metadata_def trial_count_def
      trial_start_def trial_walk.simps get_data_circ_def nth_append upt_rec)

text \<open>
  C3, amended: in \<^verbatim>\<open>LwlPrinter.get_optimal_start_idx\<close> (logfmt.py), when the put index
  lies in the buffer, the buffer lies in the data, the catalog is not empty (W \<ge> 1) and
  \<open>put_idx + W < 2 * buf_len\<close>, every offset \<open>u\<close> from 0 to W has a trial, it starts at
  \<open>(put_idx + u) mod buf_len\<close> and returns a count, and the function returns the start
  index of the trial \<open>t\<close> whose count is the least, the first such offset: no trial has
  a smaller count and every earlier trial has a larger one.
\<close>

theorem C3_resync_selects_first_minimum:
  assumes "put_idx < buf_len" and "put_idx + max_msg_len ms < 2 * buf_len"
    and "buf_start_idx + buf_len \<le> length data_array" and "1 \<le> max_msg_len ms"
  shows "\<exists>t c. t \<le> max_msg_len ms
     \<and> get_optimal_start_idx data_array ms buf_start_idx buf_len put_idx
         = Inr (Some ((put_idx + t) mod buf_len))
     \<and> trial_count data_array ms buf_start_idx buf_len put_idx t = Inr c
     \<and> (\<forall>u \<le> max_msg_len ms. trial_start buf_len put_idx u = (put_idx + u) mod buf_len
           \<and> (\<exists>c'. trial_count data_array ms buf_start_idx buf_len put_idx u = Inr c' \<and> c \<le> c'))
     \<and> (\<forall>u < t. \<exists>c'. trial_count data_array ms buf_start_idx buf_len put_idx u = Inr c' \<and> c < c')"
proof -
  let ?W = "max_msg_len ms"
  let ?tc = "trial_count data_array ms buf_start_idx buf_len put_idx"
  define cnt where "cnt u = projr (?tc u)" for u
  have ok: "?tc u = Inr (cnt u) \<and> (u \<noteq> 0 \<longrightarrow> cnt u < buf_len)" if "u \<le> ?W" for u
  proof -
    from that assms(2) have "put_idx + u < 2 * buf_len" by simp
    from trial_count_ok[OF assms(1) this assms(3), of ms] show ?thesis
      by (auto simp: cnt_def)
  qed
  define xs where "xs = [0..<?W + 1]"
  have len: "length xs = ?W + 1" by (simp add: xs_def)
  have nth: "xs ! j = j" if "j < ?W + 1" for j
    using that nth_upt[of 0 j "?W + 1"] by (simp add: xs_def)
  have mem: "x \<le> ?W" if "x \<in> set xs" for x using that by (auto simp: xs_def)
  have all: "\<forall>x\<in>set xs. ?tc x = Inr (cnt x)" using ok mem by blast
  from optimal_loop_first_min[OF all, of buf_len None]
  obtain r where r: "get_optimal_start_idx data_array ms buf_start_idx buf_len put_idx = Inr r"
    and sp: "if \<forall>x\<in>set xs. buf_len \<le> cnt x then r = None
      else \<exists>i<length xs. r = Some (trial_start buf_len put_idx (xs ! i))
             \<and> cnt (xs ! i) < buf_len
             \<and> (\<forall>j<length xs. cnt (xs ! i) \<le> cnt (xs ! j))
             \<and> (\<forall>j<i. cnt (xs ! i) < cnt (xs ! j))"
    unfolding get_optimal_start_idx_def xs_def by blast
  have "cnt 1 < buf_len" using ok[of 1] assms(4) by simp
  moreover have "1 \<in> set xs" using assms(4) by (auto simp: xs_def le_eq_less_or_eq)
  ultimately have "\<not> (\<forall>x\<in>set xs. buf_len \<le> cnt x)"
    by (metis not_less)
  with sp obtain i where i: "i < ?W + 1" "r = Some (trial_start buf_len put_idx (xs ! i))"
    "\<forall>j<?W + 1. cnt (xs ! i) \<le> cnt (xs ! j)"
    "\<forall>j<i. cnt (xs ! i) < cnt (xs ! j)"
    unfolding len by auto
  have st: "trial_start buf_len put_idx u = (put_idx + u) mod buf_len" if "u \<le> ?W" for u
    using that assms(2) by (intro trial_start_mod) simp
  have le: "i \<le> ?W" using i(1) by simp
  have mn: "cnt i \<le> cnt u" if "u \<le> ?W" for u
    using i(3) that nth[of i] nth[of u] i(1) by (metis Suc_eq_plus1 less_Suc_eq_le)
  have fst: "cnt i < cnt u" if "u < i" for u
    using i(4) that nth[of i] nth[of u] i(1) by (metis less_trans)
  have B: "get_optimal_start_idx data_array ms buf_start_idx buf_len put_idx
         = Inr (Some ((put_idx + i) mod buf_len))"
    using r i(2) nth[OF i(1)] st[OF le] by simp
  have C: "?tc i = Inr (cnt i)" using ok[OF le] by simp
  have D: "\<forall>u \<le> ?W. trial_start buf_len put_idx u = (put_idx + u) mod buf_len
           \<and> (\<exists>c'. ?tc u = Inr c' \<and> cnt i \<le> c')"
    using st ok mn by blast
  have E: "\<forall>u < i. \<exists>c'. ?tc u = Inr c' \<and> cnt i < c'"
  proof (intro allI impI)
    fix u assume u: "u < i"
    then have "u \<le> ?W" using le by simp
    from ok[OF this] fst[OF u] show "\<exists>c'. ?tc u = Inr c' \<and> cnt i < c'" by auto
  qed
  from le B C D E show ?thesis by blast
qed


text \<open>
  A witness: the buffer \<open>07 01 02 00 00 00\<close> with put index 0. From offset 0 the
  walk counts the byte 07 as an invalid id; from offset 1 it meets the two known ids
  only, so index 1 is returned.
\<close>

theorem C3_resync_selects_first_minimum_witness:
  "get_optimal_start_idx (replicate 16 0 @ [0x07, 0x01, 0x02, 0x00, 0x00, 0x00])
       tick_val_catalog 16 6 0 = Inr (Some 1)
   \<and> (\<exists>t c. t \<le> max_msg_len tick_val_catalog
     \<and> get_optimal_start_idx (replicate 16 0 @ [0x07, 0x01, 0x02, 0x00, 0x00, 0x00])
           tick_val_catalog 16 6 0 = Inr (Some ((0 + t) mod 6))
     \<and> trial_count (replicate 16 0 @ [0x07, 0x01, 0x02, 0x00, 0x00, 0x00])
           tick_val_catalog 16 6 0 t = Inr c
     \<and> (\<forall>u \<le> max_msg_len tick_val_catalog. trial_start 6 0 u = (0 + u) mod 6
           \<and> (\<exists>c'. trial_count (replicate 16 0 @ [0x07, 0x01, 0x02, 0x00, 0x00, 0x00])
                       tick_val_catalog 16 6 0 u = Inr c' \<and> c \<le> c'))
     \<and> (\<forall>u < t. \<exists>c'. trial_count (replicate 16 0 @ [0x07, 0x01, 0x02, 0x00, 0x00, 0x00])
                       tick_val_catalog 16 6 0 u = Inr c' \<and> c < c'))"
proof -
  have v: "get_optimal_start_idx (replicate 16 0 @ [0x07, 0x01, 0x02, 0x00, 0x00, 0x00])
       tick_val_catalog 16 6 0 = Inr (Some 1)"
    by (simp add: get_optimal_start_idx_def catalog_simps trial_count_def trial_start_def
        trial_walk.simps get_data_circ_def get_bytes_left_circ_def nth_append upt_rec)
  have h: "(0::nat) < 6" "0 + max_msg_len tick_val_catalog < 2 * 6"
    "16 + 6 \<le> length (replicate 16 (0::byte) @ [0x07, 0x01, 0x02, 0x00, 0x00, 0x00])"
    "1 \<le> max_msg_len tick_val_catalog"
    by (simp_all add: tick_val_catalog_def)
  from v C3_resync_selects_first_minimum[OF h] show ?thesis by blast
qed


section \<open>Claim C4\<close>

text \<open>
  C4: the framer rejects a section whose length is below 8 or reaches past the blob.
  The code compares \<open>idx + section_len\<close> with the length of the data and has no
  check against the lower bound. At a trailer header that declares the length 4 the
  section is accepted and dispatched: the end marker is printed, \<open>idx\<close> advances by 4
  into the header's own length field, and the error that ends the run is the one of the
  next header, found too short at index 4.
\<close>

theorem C4_short_section_is_dispatched:
  "get_data False [0x01, 0x00, 0xda, 0xc0, 0x04, 0x00, 0x00, 0x00] 4 4 = Inr 4
   \<and> process_data py_format False fd ms [0x01, 0x00, 0xda, 0xc0, 0x04, 0x00, 0x00, 0x00]
       = Some ([Rule, Text ''End of fault data'', Rule, Err_header 4 8], 4, Inr False)"
  by (simp add: process_simps)


section \<open>Claim C5\<close>

text \<open>
  C5: the framing loop terminates for every blob, with full consumption or a
  diagnostic. At a trailer header that declares the length 0 the section passes the
  only length check, is dispatched, and \<open>idx\<close> advances by 0: the loop meets the same
  header again and \<^verbatim>\<open>process_data\<close> never returns.
\<close>

theorem C5_zero_length_section_never_returns:
  "get_data False [0x01, 0x00, 0xda, 0xc0, 0x00, 0x00, 0x00, 0x00] 0 4 = Inr MOD_MAGIC_TRAILER
   \<and> get_data False [0x01, 0x00, 0xda, 0xc0, 0x00, 0x00, 0x00, 0x00] 4 4 = Inr 0
   \<and> process_data py_format False fd ms [0x01, 0x00, 0xda, 0xc0, 0x00, 0x00, 0x00, 0x00] = None"
proof -
  have "process_data py_format False fd ms [0x01, 0x00, 0xda, 0xc0, 0x00, 0x00, 0x00, 0x00] = None"
    using zero_length_section_loops[of py_format False fd ms
        "[0x01, 0x00, 0xda, 0xc0, 0x00, 0x00, 0x00, 0x00]" None 0 "[]"]
    by (cases "process_data py_format False fd ms [0x01, 0x00, 0xda, 0xc0, 0x00, 0x00, 0x00, 0x00]")
      (auto simp: process_data_def)
  then show ?thesis by (simp add: get_data_def magic_simps)
qed


section \<open>Claim C6\<close>

text \<open>
  C6 as stated: in every trial, for every offset from 0 to W, the first read is
  permitted even when it stands on \<open>put_idx\<close>. In logfmt.py only the trial of offset 0
  is exempt (\<^verbatim>\<open>first_get = offset == 0\<close>). With a four-byte buffer, put index 0 and
  W = 5, the trial of offset 4 starts on \<open>put_idx\<close> again; its first read raises
  EOFError and the trial ends with the count 0, although every byte of the buffer is an
  invalid id (the trial of offset 0 counts 4). That trial is the minimum, and start
  index 0 is returned.
\<close>

theorem C6_logfmt_counterexample:
  "4 \<le> max_msg_len tick_val_catalog \<and> trial_start 4 0 4 = 0
   \<and> get_data_circ (replicate 16 0 @ [0xff, 0xff, 0xff, 0xff]) (trial_start 4 0 4) 1 16 4 0
         (4 = (0::nat)) = Inl EOFError
   \<and> trial_count (replicate 16 0 @ [0xff, 0xff, 0xff, 0xff]) tick_val_catalog 16 4 0 4 = Inr 0
   \<and> trial_count (replicate 16 0 @ [0xff, 0xff, 0xff, 0xff]) tick_val_catalog 16 4 0 0 = Inr 4
   \<and> get_optimal_start_idx (replicate 16 0 @ [0xff, 0xff, 0xff, 0xff]) tick_val_catalog 16 4 0
         = Inr (Some 0)"
  by (simp add: get_optimal_start_idx_def catalog_simps trial_count_def trial_start_def
      trial_walk.simps get_data_circ_def get_bytes_left_circ_def nth_append upt_rec)

text \<open>
  C6, amended: in \<^verbatim>\<open>LwlPrinter.get_optimal_start_idx\<close> (logfmt.py) the trial of offset
  0 starts on \<open>put_idx\<close> and its first read there is permitted: it returns the byte and
  the next index. A read on \<open>put_idx\<close> that is not exempt raises EOFError, and a walk
  standing there ends the trial with the count it has; that is so for every later read
  of a trial and for the first read of a trial of another offset that starts on
  \<open>put_idx\<close>, which therefore counts 0. Over a buffer without a known id the trial of
  offset 0 counts \<open>buf_len\<close>, every byte once, and a walk that is not exempt counts the
  bytes from its start up to \<open>put_idx\<close>. In lwl.py every trial starts with
  \<^verbatim>\<open>first_get = True\<close>, and the first read on \<open>put_idx\<close> is permitted.
\<close>

theorem C6_first_read_exemption:
  assumes "put_idx < buf_len" and "buf_start_idx + buf_len \<le> length data_array"
  shows
    "trial_start buf_len put_idx 0 = put_idx
     \<and> get_data_circ data_array put_idx 1 buf_start_idx buf_len put_idx True
       = Inr (unat (data_array ! (buf_start_idx + put_idx)),
              if put_idx + 1 \<ge> buf_len then 0 else put_idx + 1)
     \<and> get_data_circ data_array put_idx 1 buf_start_idx buf_len put_idx False = Inl EOFError
     \<and> trial_walk data_array ms buf_start_idx buf_len put_idx put_idx False invalid_id_ctr
       = Inr invalid_id_ctr
     \<and> (t \<noteq> 0 \<and> trial_start buf_len put_idx t = put_idx
          \<longrightarrow> trial_count data_array ms buf_start_idx buf_len put_idx t = Inr 0)
     \<and> ((\<forall>k<buf_len. get_metadata ms (unat (data_array ! (buf_start_idx + k))) = None)
          \<longrightarrow> trial_count data_array ms buf_start_idx buf_len put_idx 0 = Inr buf_len
            \<and> (\<forall>idx<buf_len.
                  trial_walk data_array ms buf_start_idx buf_len put_idx idx False invalid_id_ctr
                    = Inr (invalid_id_ctr + circ_dist buf_len put_idx idx)))
     \<and> (put_idx < length data
          \<longrightarrow> lwl_trial_start data put_idx 0 = put_idx
            \<and> get_data_bytes data put_idx 1 put_idx True
                = Inr (unat (data ! put_idx), if put_idx + 1 \<ge> length data then 0 else put_idx + 1))"
proof -
  have s0: "trial_start buf_len put_idx 0 = put_idx"
    using assms(1) by (simp add: trial_start_def)
  have a: "trial_count data_array ms buf_start_idx buf_len put_idx 0
       = trial_walk data_array ms buf_start_idx buf_len put_idx put_idx True 0"
    by (simp add: trial_count_def s0)
  have b: "get_data_circ data_array put_idx 1 buf_start_idx buf_len put_idx True
       = Inr (unat (data_array ! (buf_start_idx + put_idx)),
              if put_idx + 1 \<ge> buf_len then 0 else put_idx + 1)"
    using get_data_circ_1_in_range[OF assms(1) assms(1) assms(2), of True] by simp
  have c: "get_data_circ data_array put_idx 1 buf_start_idx buf_len put_idx False = Inl EOFError"
    using get_data_circ_1_in_range[OF assms(1) assms(1) assms(2), of False] by simp
  have d: "trial_walk data_array ms buf_start_idx buf_len put_idx put_idx False invalid_id_ctr
       = Inr invalid_id_ctr"
    by (rule trial_walk_at_put[OF assms(1)])
  have e: "t \<noteq> 0 \<and> trial_start buf_len put_idx t = put_idx
          \<longrightarrow> trial_count data_array ms buf_start_idx buf_len put_idx t = Inr 0"
    using trial_walk_at_put[OF assms(1), of data_array ms buf_start_idx 0]
    by (simp add: trial_count_def)
  have f: "(\<forall>k<buf_len. get_metadata ms (unat (data_array ! (buf_start_idx + k))) = None)
          \<longrightarrow> trial_count data_array ms buf_start_idx buf_len put_idx 0 = Inr buf_len
            \<and> (\<forall>idx<buf_len.
                  trial_walk data_array ms buf_start_idx buf_len put_idx idx False invalid_id_ctr
                    = Inr (invalid_id_ctr + circ_dist buf_len put_idx idx))"
  proof (intro impI conjI allI)
    assume un: "\<forall>k<buf_len. get_metadata ms (unat (data_array ! (buf_start_idx + k))) = None"
    from trial_walk_all_unknown[OF assms(1) assms(1) assms(2) un, of True 0] a
    show "trial_count data_array ms buf_start_idx buf_len put_idx 0 = Inr buf_len" by simp
    fix idx assume "idx < buf_len"
    from trial_walk_all_unknown[OF this assms(1) assms(2) un, of False invalid_id_ctr]
    show "trial_walk data_array ms buf_start_idx buf_len put_idx idx False invalid_id_ctr
                    = Inr (invalid_id_ctr + circ_dist buf_len put_idx idx)" by simp
  qed
  have g: "put_idx < length data
          \<longrightarrow> lwl_trial_start data put_idx 0 = put_idx
            \<and> get_data_bytes data put_idx 1 put_idx True
                = Inr (unat (data ! put_idx), if put_idx + 1 \<ge> length data then 0 else put_idx + 1)"
    by (simp add: lwl_trial_start_def get_data_bytes_def)
  from s0 b c d e f g show ?thesis by blast
qed


text \<open>
  A witness: four bytes \<open>ff\<close>, put index 0, the catalog with W = 5. Offset 0 counts 4,
  offset 4 counts 0, and a walk from index 2 that has counted 7 ends with 9.
\<close>

theorem C6_first_read_exemption_witness:
  "trial_start 4 0 0 = 0
   \<and> trial_count (replicate 16 0 @ [0xff, 0xff, 0xff, 0xff]) tick_val_catalog 16 4 0 0 = Inr 4
   \<and> trial_count (replicate 16 0 @ [0xff, 0xff, 0xff, 0xff]) tick_val_catalog 16 4 0 4 = Inr 0
   \<and> get_data_circ (replicate 16 0 @ [0xff, 0xff, 0xff, 0xff]) 0 1 16 4 0 True = Inr (0xff, 1)
   \<and> get_data_circ (replicate 16 0 @ [0xff, 0xff, 0xff, 0xff]) 0 1 16 4 0 False = Inl EOFError
   \<and> trial_walk (replicate 16 0 @ [0xff, 0xff, 0xff, 0xff]) tick_val_catalog 16 4 0 2 False 7
         = Inr 9
   \<and> get_data_bytes [0xff, 0xff] 0 1 0 True = Inr (0xff, 1)"
proof -
  let ?D = "replicate 16 (0::byte) @ [0xff, 0xff, 0xff, 0xff]"
  have h: "(0::nat) < 4" "16 + 4 \<le> length ?D" by simp_all
  have un: "\<forall>k<4. get_metadata tick_val_catalog (unat (?D ! (16 + k))) = None"
  proof (intro allI impI)
    fix k :: nat assume "k < 4"
    then consider "k = 0" | "k = 1" | "k = 2" | "k = 3" by arith
    then show "get_metadata tick_val_catalog (unat (?D ! (16 + k))) = None"
      by cases (simp_all add: catalog_simps nth_append)
  qed
  have st: "(4::nat) \<noteq> 0 \<and> trial_start 4 0 4 = 0" by (simp add: trial_start_def)
  have lw: "(0::nat) < length [0xff::byte, 0xff]" by simp
  have cd: "circ_dist 4 0 2 = 2" by (simp add: circ_dist_def)
  have two: "(2::nat) < 4" by simp
  from C6_first_read_exemption[OF h, of tick_val_catalog 7 4 "[0xff, 0xff]"] un st lw
  have all: "trial_start 4 0 0 = 0
     \<and> trial_count ?D tick_val_catalog 16 4 0 0 = Inr 4
     \<and> trial_count ?D tick_val_catalog 16 4 0 4 = Inr 0
     \<and> get_data_circ ?D 0 1 16 4 0 True = Inr (0xff, 1)
     \<and> get_data_circ ?D 0 1 16 4 0 False = Inl EOFError
     \<and> (\<forall>idx<4. trial_walk ?D tick_val_catalog 16 4 0 idx False 7
            = Inr (7 + circ_dist 4 0 idx))
     \<and> get_data_bytes [0xff, 0xff] 0 1 0 True = Inr (0xff, 1)"
    by (simp add: nth_append)
  then have "trial_walk ?D tick_val_catalog 16 4 0 2 False 7 = Inr (7 + circ_dist 4 0 2)"
    using two by blast
  with all cd show ?thesis by simp
qed


section \<open>Claim C7\<close>

text \<open>
  C7 as stated: in every resynchronisation trial a known id whose argument bytes are cut
  short by exhaustion stops the trial, and the bytes of the partial argument span are
  not counted. The trial of lwl.py goes on instead: at the buffer \<open>02 ff\<close> with put index
  0, id 2 wants four argument bytes and one is left; the read of the arguments raises
  EOFError, the walk resumes at the byte after the id, and the byte \<open>ff\<close> of the partial
  span is counted as an invalid id.
\<close>

theorem C7_lwl_py_counterexample:
  "get_metadata tick_val_catalog 2 = Some msg_val \<and> num_arg_bytes msg_val = 4
   \<and> get_data_bytes [0x02, 0xff] 0 1 0 True = Inr (2, 1)
   \<and> get_data_bytes [0x02, 0xff] 1 4 0 False = Inl EOFError
   \<and> get_metadata tick_val_catalog 0xff = None
   \<and> lwl_trial_count [0x02, 0xff] tick_val_catalog 0 0 = Some (Inr 1)"
  by (simp add: catalog_simps lwl_trial_count_def lwl_trial_start_def lwl_trial_walk.simps
      get_data_bytes_def)

text \<open>
  C7, amended: in a trial of \<^verbatim>\<open>LwlPrinter.get_optimal_start_idx\<close> (logfmt.py), when
  the id byte read at \<open>idx\<close> is known and fewer bytes are left between the next index
  and \<open>put_idx\<close> than the descriptor's \<open>num_arg_bytes\<close>, the trial ends there and its
  result is the invalid-id count it had before that id. (In lwl.py the walk resumes at
  the byte after the id.)
\<close>

theorem C7_trial_stops_on_short_arguments:
  assumes "idx < buf_len" and "put_idx < buf_len"
    and "buf_start_idx + buf_len \<le> length data_array"
    and "idx \<noteq> put_idx \<or> first_get"
    and "get_metadata ms (unat (data_array ! (buf_start_idx + idx))) = Some msg_meta"
    and "circ_dist buf_len put_idx (if idx + 1 \<ge> buf_len then 0 else idx + 1)
           < num_arg_bytes msg_meta"
  shows "trial_walk data_array ms buf_start_idx buf_len put_idx idx first_get invalid_id_ctr
           = Inr invalid_id_ctr"
proof -
  let ?idx1 = "if idx + 1 \<ge> buf_len then 0 else idx + 1"
  have rd: "get_data_circ data_array idx 1 buf_start_idx buf_len put_idx first_get
      = Inr (unat (data_array ! (buf_start_idx + idx)), ?idx1)"
    using get_data_circ_1_in_range[OF assms(1,2,3), of first_get] assms(4) by auto
  have i1: "?idx1 < buf_len" using assms(1) by auto
  obtain k idx2 where lp:
    "get_bytes_left_circ_loop buf_len put_idx False (num_arg_bytes msg_meta) 0 ?idx1 = (k, idx2)"
    by (cases "get_bytes_left_circ_loop buf_len put_idx False (num_arg_bytes msg_meta) 0 ?idx1")
  from get_bytes_left_circ_loop_dist[OF i1 assms(2) lp] assms(6)
  have k: "k < num_arg_bytes msg_meta" by simp
  have gbl: "get_bytes_left_circ ?idx1 (num_arg_bytes msg_meta) buf_start_idx buf_len put_idx False
      = Inr (k, idx2)"
    using get_bytes_left_circ_in_range[OF i1 assms(2)] lp by simp
  show ?thesis
    using rd assms(5) gbl k by (subst trial_walk.simps) simp
qed

text \<open>
  A witness: the buffer \<open>ff 02 ff\<close> with put index 0. The trial of offset 0 counts the
  first byte, meets id 2 at index 1 with one byte left of the four, and ends with the
  count 1: the byte at index 2 is not examined.
\<close>

theorem C7_trial_stops_on_short_arguments_witness:
  "get_metadata tick_val_catalog (unat ((replicate 16 (0::byte) @ [0xff, 0x02, 0xff]) ! (16 + 1)))
     = Some msg_val
   \<and> circ_dist 3 0 (if 1 + 1 \<ge> (3::nat) then 0 else 1 + 1) < num_arg_bytes msg_val
   \<and> trial_walk (replicate 16 0 @ [0xff, 0x02, 0xff]) tick_val_catalog 16 3 0 1 False 1 = Inr 1
   \<and> trial_count (replicate 16 0 @ [0xff, 0x02, 0xff]) tick_val_catalog 16 3 0 0 = Inr 1"
proof -
  have h: "(1::nat) < 3" "(0::nat) < 3" "16 + 3 \<le> length (replicate 16 (0::byte) @ [0xff, 0x02, 0xff])"
    "(1::nat) \<noteq> 0 \<or> False"
    "get_metadata tick_val_catalog (unat ((replicate 16 (0::byte) @ [0xff, 0x02, 0xff]) ! (16 + 1)))
       = Some msg_val"
    "circ_dist 3 0 (if 1 + 1 \<ge> (3::nat) then 0 else 1 + 1) < num_arg_bytes msg_val"
    by (simp_all add: catalog_simps nth_append circ_dist_def)
  have w: "trial_walk (replicate 16 0 @ [0xff, 0x02, 0xff]) tick_val_catalog 16 3 0 1 False 1 = Inr 1"
    by (rule C7_trial_stops_on_short_arguments[OF h])
  have "trial_count (replicate 16 0 @ [0xff, 0x02, 0xff]) tick_val_catalog 16 3 0 0
      = trial_walk (replicate 16 0 @ [0xff, 0x02, 0xff]) tick_val_catalog 16 3 0 1 False 1"
    by (simp add: trial_count_def trial_start_def catalog_simps get_data_circ_def nth_append
        trial_walk.simps[of _ _ _ _ _ 0 True])
  with w h show ?thesis by simp
qed


section \<open>Claim C8\<close>

text \<open>
  C8 as stated: in every streaming decode the unknown id bytes collected before a known
  id are printed as a skipped-data annotation before that message. \<^verbatim>\<open>print_data\<close> of
  lwl.py collects them and prints nothing: at the buffer \<open>ff 01\<close> the byte \<open>ff\<close> is
  unknown, id 1 follows, and the output is the message alone.
\<close>

theorem C8_lwl_py_counterexample:
  "get_metadata tick_catalog 0xff = None \<and> get_metadata tick_catalog 1 = Some msg_tick
   \<and> print_data format_d [0xff, 0x01] tick_catalog (Some 0) 0 = Some ([Message ''tick''], Inr ())"
  by (simp add: print_data_def lwl_decode_loop.simps lwl_find_id.simps get_data_bytes_def
      catalog_simps lwl_report_unused_def)

text \<open>
  The two hypotheses on the catalog are needed. A message whose values do not fit its
  format makes Python's \<^verbatim>\<open>%\<close> raise, and \<^verbatim>\<open>pretty_print\<close> catches EOFError only:
  with id 2 registered with the format \<^verbatim>\<open>val=%d\<close> and no argument bytes (the entry
  logfmt.py accepts, see C9), decoding the buffer \<open>02 01\<close> ends with TypeError.
\<close>

lemma stream_decode_format_mismatch_raises:
  "stream_decode format_d (replicate 16 0 @ [0x02, 0x01])
     \<lparr>lwl_msgs = [2 \<mapsto> msg_val\<lparr>arg_bytes := [], num_arg_bytes := 0\<rparr>], max_msg_len = 1\<rparr>
     16 2 0 0 True [] = Some ([], Inl TypeError)"
  by (simp add: stream_decode_def decode_loop.simps find_id.simps get_data_circ_def
      get_metadata_def msg_val_def nth_append report_unused_def)

text \<open>
  The exhaustion part of the amended claim leaves one case out. When the known id is the
  exempt first read on \<open>put_idx\<close> (a full buffer whose oldest byte is the id) and its
  argument read runs into exhaustion, the loop that collects the unused data starts on
  \<open>put_idx\<close> with \<open>first_get\<close> false and raises at its first read: the annotation
  printed is empty, where the comment of the source says that the unused data are
  printed. At the full buffer \<open>02 00 00 00\<close> with put index 0, id 2 wants four argument
  bytes and three are left; the line printed lists no byte.
\<close>

lemma stream_decode_id_on_put_idx_empty_unused:
  "stream_decode format_d (replicate 16 0 @ [0x02, 0x00, 0x00, 0x00]) tick_val_catalog
     16 4 0 0 True [] = Some ([Unused_data []], Inr ())"
  by (simp add: stream_decode_def decode_loop.simps find_id.simps get_data_circ_def
      catalog_simps msg_val_def nth_append report_unused_def unused_loop.simps)

text \<open>
  C8, amended: the streaming decode of \<^verbatim>\<open>LwlPrinter.pretty_print\<close> (logfmt.py), from
  any start index of a buffer that lies in the data, with a catalog whose \<open>arg_bytes\<close>
  are digits and whose formats accept as many values as \<open>arg_bytes\<close> has digits,
  returns for every content of the buffer: it raises nothing, and what it prints is a
  sequence of messages, each alone or directly after one non-empty skipped-data
  annotation, with at most one unused-data annotation, the last line. More precisely,
  when \<open>k\<close> unknown id bytes are followed by a known id whose reads are all permitted:
  if the argument bytes are all there, the decode prints the skipped-data annotation
  with exactly those \<open>k\<close> bytes (no annotation when \<open>k = 0\<close>), then the message, and
  goes on after the arguments; if the argument read runs into exhaustion and the id byte
  does not stand on \<open>put_idx\<close>, it prints that annotation, then the unused-data
  annotation that lists the id byte and every byte after it up to the end of the data
  (the byte before \<open>put_idx\<close>), and returns. The case of an id byte on \<open>put_idx\<close>
  (the exempt first read of a full buffer) is left out of the second part.
\<close>

theorem C8_stream_decode_recovers:
  assumes "put_idx < buf_len" and "buf_start_idx + buf_len \<le> length data_array"
    and "idx < buf_len"
    and "\<forall>i m. get_metadata ms i = Some m \<longrightarrow> (\<exists>n. sum_arg_bytes (arg_bytes m) 0 = Inr n)"
    and "\<forall>i m vals. get_metadata ms i = Some m \<longrightarrow> length vals = length (arg_bytes m)
           \<longrightarrow> (\<exists>s. py_format (fmt m) vals = Inr s)"
  shows "(\<exists>ls. stream_decode py_format data_array ms buf_start_idx buf_len put_idx idx first_get
                 out = Some (out @ ls, Inr ())
              \<and> annotated_stream ls)
     \<and> ((\<forall>j<k. get_metadata ms
                   (unat (data_array ! (buf_start_idx + (idx + j) mod buf_len))) = None)
         \<and> get_metadata ms (unat (data_array ! (buf_start_idx + (idx + k) mod buf_len)))
             = Some msg_meta
         \<and> (\<forall>j\<le>k. (idx + j) mod buf_len = put_idx \<longrightarrow> j = 0 \<and> first_get)
        \<longrightarrow> (get_args data_array buf_start_idx buf_len put_idx False (arg_bytes msg_meta)
               (if (idx + k) mod buf_len + 1 \<ge> buf_len then 0 else (idx + k) mod buf_len + 1) []
               = Inr (arg_values, idx_after)
             \<and> py_format (fmt msg_meta) arg_values = Inr s
             \<longrightarrow> stream_decode py_format data_array ms buf_start_idx buf_len put_idx idx
                   first_get out
                 = stream_decode py_format data_array ms buf_start_idx buf_len put_idx idx_after False
                     (out @ (if k \<noteq> 0
                             then [Skipped_data (circ_bytes data_array buf_start_idx buf_len idx k)]
                             else [])
                          @ [Message s]))
          \<and> (get_args data_array buf_start_idx buf_len put_idx False (arg_bytes msg_meta)
               (if (idx + k) mod buf_len + 1 \<ge> buf_len then 0 else (idx + k) mod buf_len + 1) []
               = Inl EOFError
             \<and> (idx + k) mod buf_len \<noteq> put_idx
             \<longrightarrow> stream_decode py_format data_array ms buf_start_idx buf_len put_idx idx
                   first_get out
                 = Some (out @ (if k \<noteq> 0
                                then [Skipped_data
                                        (circ_bytes data_array buf_start_idx buf_len idx k)]
                                else [])
                             @ [Unused_data
                                  (unat (data_array ! (buf_start_idx + (idx + k) mod buf_len))
                                   # circ_bytes data_array buf_start_idx buf_len
                                       (if (idx + k) mod buf_len + 1 \<ge> buf_len then 0
                                        else (idx + k) mod buf_len + 1)
                                       (circ_dist buf_len put_idx
                                          (if (idx + k) mod buf_len + 1 \<ge> buf_len then 0
                                           else (idx + k) mod buf_len + 1)))],
                         Inr ())))"
proof (intro conjI impI)
  show "\<exists>ls. stream_decode py_format data_array ms buf_start_idx buf_len put_idx idx first_get
                 out = Some (out @ ls, Inr ())
              \<and> annotated_stream ls"
    by (rule stream_decode_ok[OF assms(1,2,4,5,3)])
next
  let ?id_idx = "(idx + k) mod buf_len"
  let ?nxt = "if ?id_idx + 1 \<ge> buf_len then 0 else ?id_idx + 1"
  let ?sk = "circ_bytes data_array buf_start_idx buf_len idx k"
  assume a: "(\<forall>j<k. get_metadata ms
                   (unat (data_array ! (buf_start_idx + (idx + j) mod buf_len))) = None)
         \<and> get_metadata ms (unat (data_array ! (buf_start_idx + ?id_idx))) = Some msg_meta
         \<and> (\<forall>j\<le>k. (idx + j) mod buf_len = put_idx \<longrightarrow> j = 0 \<and> first_get)"
  then have fnd: "find_id data_array ms buf_start_idx buf_len put_idx idx first_get None []
      = Inr (Found (unat (data_array ! (buf_start_idx + ?id_idx))) ?id_idx ?nxt ?sk msg_meta)"
    using find_id_found[OF assms(3,1,2), of k ms msg_meta first_get None "[]"] by simp
  have o1: "(if ?sk \<noteq> [] then out @ [Skipped_data ?sk] else out)
      = out @ (if k \<noteq> 0 then [Skipped_data ?sk] else [])"
    by (simp add: circ_bytes_empty_iff)
  {
    assume b: "get_args data_array buf_start_idx buf_len put_idx False (arg_bytes msg_meta)
               ?nxt [] = Inr (arg_values, idx_after)
             \<and> py_format (fmt msg_meta) arg_values = Inr s"
    have "decode_loop py_format data_array ms buf_start_idx buf_len put_idx idx first_get out
        = decode_loop py_format data_array ms buf_start_idx buf_len put_idx idx_after False
            ((out @ (if k \<noteq> 0 then [Skipped_data ?sk] else [])) @ [Message s])"
      using fnd b by (subst decode_loop.simps) (simp add: o1 del: append_assoc)
    then show "stream_decode py_format data_array ms buf_start_idx buf_len put_idx idx
                   first_get out
                 = stream_decode py_format data_array ms buf_start_idx buf_len put_idx idx_after False
                     (out @ (if k \<noteq> 0 then [Skipped_data ?sk] else []) @ [Message s])"
      by (simp add: stream_decode_def)
  }
  {
    assume b: "get_args data_array buf_start_idx buf_len put_idx False (arg_bytes msg_meta)
               ?nxt [] = Inl EOFError
             \<and> ?id_idx \<noteq> put_idx"
    have lt: "?id_idx < buf_len" using assms(3) by simp
    have "decode_loop py_format data_array ms buf_start_idx buf_len put_idx idx first_get out
        = (out @ (if k \<noteq> 0 then [Skipped_data ?sk] else []),
           Inr (Some (unat (data_array ! (buf_start_idx + ?id_idx))), ?id_idx, False))"
      using fnd b by (subst decode_loop.simps) (simp add: o1)
    with unused_loop_ok[OF lt assms(1,2), of "[]"]
    have sd: "stream_decode py_format data_array ms buf_start_idx buf_len put_idx idx
                   first_get out
                 = Some (out @ (if k \<noteq> 0 then [Skipped_data ?sk] else [])
                             @ [Unused_data
                                  (circ_bytes data_array buf_start_idx buf_len ?id_idx
                                     (circ_dist buf_len put_idx ?id_idx))],
                         Inr ())"
      by (simp add: stream_decode_def report_unused_def)
    from b have ne: "?id_idx \<noteq> put_idx" by simp
    have "circ_dist buf_len put_idx ?id_idx = Suc (circ_dist buf_len put_idx ?nxt)"
      using circ_dist_next[OF lt assms(1) ne] by simp
    then have "circ_bytes data_array buf_start_idx buf_len ?id_idx
                 (circ_dist buf_len put_idx ?id_idx)
        = unat (data_array ! (buf_start_idx + ?id_idx))
          # circ_bytes data_array buf_start_idx buf_len ?nxt (circ_dist buf_len put_idx ?nxt)"
      using circ_next_mod[OF lt] by (simp only: circ_bytes_Suc mod_mod_trivial)
    with sd
    show "stream_decode py_format data_array ms buf_start_idx buf_len put_idx idx
                   first_get out
                 = Some (out @ (if k \<noteq> 0 then [Skipped_data ?sk] else [])
                             @ [Unused_data
                                  (unat (data_array ! (buf_start_idx + ?id_idx))
                                   # circ_bytes data_array buf_start_idx buf_len ?nxt
                                       (circ_dist buf_len put_idx ?nxt))],
                         Inr ())"
      by (simp only:)
  }
qed


text \<open>
  A witness: the buffer \<open>ff 01 ee 02 00 00 00\<close> with put index 0, from start index 0.
  The decode skips \<open>ff\<close>, prints message 1, skips \<open>ee\<close>, finds id 2 with three
  of its four argument bytes and prints them with the id as unused data.
\<close>

theorem C8_stream_decode_recovers_witness:
  "stream_decode format_d recovery_blob tick_val_catalog 16 7 0 0 True []
     = Some ([Skipped_data [0xff], Message ''tick'', Skipped_data [0xee],
              Unused_data [0x02, 0x00, 0x00, 0x00]], Inr ())
   \<and> annotated_stream [Skipped_data [0xff], Message ''tick'', Skipped_data [0xee],
                        Unused_data [0x02, 0x00, 0x00, 0x00]]
   \<and> (\<exists>ls. stream_decode format_d recovery_blob tick_val_catalog 16 7 0 0 True []
              = Some ([] @ ls, Inr ()) \<and> annotated_stream ls)"
proof -
  have h: "(0::nat) < 7" "16 + 7 \<le> length recovery_blob" by (simp_all add: recovery_blob_def)
  have h2: "(2::nat) < 7" by simp
  note T0 = C8_stream_decode_recovers[OF h(1) h(2) h(1) tick_val_catalog_digits
      tick_val_catalog_formats,
      where k = 1 and first_get = True and msg_meta = msg_tick and arg_values = "[]"
        and idx_after = 2 and s = "''tick''" and out = "[]"]
  note T2 = C8_stream_decode_recovers[OF h(1) h(2) h2 tick_val_catalog_digits
      tick_val_catalog_formats,
      where k = 1 and first_get = False and msg_meta = msg_val
        and out = "[Skipped_data [0xff], Message ''tick'']"]
  have a0: "(\<forall>j<1. get_metadata tick_val_catalog
                   (unat (recovery_blob ! (16 + (0 + j) mod 7))) = None)
         \<and> get_metadata tick_val_catalog (unat (recovery_blob ! (16 + (0 + 1) mod 7)))
             = Some msg_tick
         \<and> (\<forall>j\<le>1. (0 + j) mod 7 = (0::nat) \<longrightarrow> j = 0 \<and> True)"
    by (auto simp: recovery_blob_def catalog_simps nth_append le_Suc_eq)
  have b0: "get_args recovery_blob 16 7 0 False (arg_bytes msg_tick)
               (if (0 + 1) mod 7 + 1 \<ge> (7::nat) then 0 else (0 + 1) mod 7 + 1) []
               = Inr ([], 2)
             \<and> format_d (fmt msg_tick) [] = Inr ''tick''"
    by (simp add: msg_tick_def)
  have a2: "(\<forall>j<1. get_metadata tick_val_catalog
                   (unat (recovery_blob ! (16 + (2 + j) mod 7))) = None)
         \<and> get_metadata tick_val_catalog (unat (recovery_blob ! (16 + (2 + 1) mod 7)))
             = Some msg_val
         \<and> (\<forall>j\<le>1. (2 + j) mod 7 = (0::nat) \<longrightarrow> j = 0 \<and> False)"
    by (auto simp: recovery_blob_def catalog_simps nth_append le_Suc_eq)
  have b2: "get_args recovery_blob 16 7 0 False (arg_bytes msg_val)
               (if (2 + 1) mod 7 + 1 \<ge> (7::nat) then 0 else (2 + 1) mod 7 + 1) []
               = Inl EOFError
             \<and> (2 + 1) mod 7 \<noteq> (0::nat)"
    by (simp add: msg_val_def recovery_blob_def get_data_circ_def nth_append)
  from T0 a0 b0 have s0: "stream_decode format_d recovery_blob tick_val_catalog 16 7 0 0 True []
      = stream_decode format_d recovery_blob tick_val_catalog 16 7 0 2 False
          ([] @ (if (1::nat) \<noteq> 0 then [Skipped_data (circ_bytes recovery_blob 16 7 0 1)] else [])
             @ [Message ''tick''])"
    by blast
  from T2 a2 b2 have s2: "stream_decode format_d recovery_blob tick_val_catalog 16 7 0 2 False
        [Skipped_data [0xff], Message ''tick'']
      = Some ([Skipped_data [0xff], Message ''tick'']
                @ (if (1::nat) \<noteq> 0 then [Skipped_data (circ_bytes recovery_blob 16 7 2 1)] else [])
                @ [Unused_data
                     (unat (recovery_blob ! (16 + (2 + 1) mod 7))
                      # circ_bytes recovery_blob 16 7
                          (if (2 + 1) mod 7 + 1 \<ge> (7::nat) then 0 else (2 + 1) mod 7 + 1)
                          (circ_dist 7 0
                             (if (2 + 1) mod 7 + 1 \<ge> (7::nat) then 0 else (2 + 1) mod 7 + 1)))],
              Inr ())"
    by blast
  have cb: "circ_bytes recovery_blob 16 7 0 1 = [0xff]" "circ_bytes recovery_blob 16 7 2 1 = [0xee]"
    "circ_bytes recovery_blob 16 7 4 3 = [0x00, 0x00, 0x00]" "circ_dist 7 0 4 = 3"
    "unat (recovery_blob ! 19) = 2"
    by (simp_all add: recovery_blob_def circ_bytes_Suc circ_dist_def nth_append)
  have v: "stream_decode format_d recovery_blob tick_val_catalog 16 7 0 0 True []
     = Some ([Skipped_data [0xff], Message ''tick'', Skipped_data [0xee],
              Unused_data [0x02, 0x00, 0x00, 0x00]], Inr ())"
    using s0 s2 cb by simp
  from T0 have "\<exists>ls. stream_decode format_d recovery_blob tick_val_catalog 16 7 0 0 True []
              = Some ([] @ ls, Inr ()) \<and> annotated_stream ls" by blast
  with v show ?thesis by simp
qed


section \<open>Claim C9\<close>

text \<open>
  C9 as stated: a descriptor whose format has another number of conversion slots than
  \<open>arg_bytes\<close> has entries is reported and still added to the catalog. The scanner of
  lwl.py rejects it: for the format \<^verbatim>\<open>val=%d\<close> with an empty \<open>arg_bytes\<close> it prints the
  error, counts it and leaves the catalog as it was (id 2 stays unknown).
\<close>

theorem C9_lwl_py_counterexample:
  "get_num_fmt_params ''val=%d'' = 1 \<and> length '''' = (0::nat)
   \<and> lwl_register_statement tick_catalog 0 ''app.c'' 9 (Some 1) 1 ''val=%d'' '''' ''val'' 3
       = ([Err_fmt_args ''app.c'' 9 ''val=%d'' ''''], Inr (tick_catalog, 1))
   \<and> get_metadata tick_catalog 2 = None"
  by (simp add: lwl_register_statement_def get_num_fmt_params_def catalog_simps)

text \<open>
  C9, amended: lwl.py rejects a statement whose format's parameter count differs from
  the length of \<open>arg_bytes\<close>: the error is printed and counted and the message set is
  unchanged. logfmt.py never compares the two: a statement with a base id, a new id and
  digits for its argument lengths is added whatever its format, the error count is
  unchanged and the only report there can be is the one on the byte counts. In the
  decoder, the argument read of a message returns one value per digit of \<open>arg_bytes\<close> and
  advances the index by the sum of the digits: the format has no part in it.
\<close>

theorem C9_slot_count_mismatch:
  "(get_num_fmt_params lwl_fmt \<noteq> length lwl_arg_bytes
      \<longrightarrow> lwl_register_statement ms error_count fp ln lwl_bid lwl_id_offset lwl_fmt lwl_arg_bytes
            st lwl_line_num
          = ([Err_fmt_args fp ln lwl_fmt lwl_arg_bytes], Inr (ms, error_count + 1)))
   \<and> (lwl_msgs ms (bid + lwl_id_offset) = None \<and> sum_arg_bytes lwl_arg_lengths 0 = Inr n
      \<longrightarrow> (\<exists>ms1.
            logfmt_register_statement ms error_count fp ln (Some bid) lwl_id_offset lwl_fmt
                lwl_num_arg_bytes lwl_arg_lengths num_arg_bytes_check st lwl_line_num
              = (if num_arg_bytes_check \<noteq> lwl_num_arg_bytes
                 then [Err_num_arg_bytes fp ln num_arg_bytes_check lwl_num_arg_bytes st]
                 else [],
                 Inr (ms1, error_count))
            \<and> get_metadata ms1 (bid + lwl_id_offset)
              = Some \<lparr>msg_id = bid + lwl_id_offset, fmt = lwl_fmt, arg_bytes = lwl_arg_lengths,
                       file_path = fp, line_num = lwl_line_num, lwl_statement = st,
                       num_arg_bytes = n\<rparr>))
   \<and> (idx < buf_len
        \<and> get_args data_array buf_start_idx buf_len put_idx first_get (arg_bytes msg_meta) idx []
            = Inr (arg_values, idx')
      \<longrightarrow> (\<exists>k. sum_arg_bytes (arg_bytes msg_meta) 0 = Inr k
               \<and> idx' = (idx + k) mod buf_len
               \<and> length arg_values = length (arg_bytes msg_meta)))"
proof (intro conjI impI)
  assume "get_num_fmt_params lwl_fmt \<noteq> length lwl_arg_bytes"
  then show "lwl_register_statement ms error_count fp ln lwl_bid lwl_id_offset lwl_fmt
      lwl_arg_bytes st lwl_line_num
          = ([Err_fmt_args fp ln lwl_fmt lwl_arg_bytes], Inr (ms, error_count + 1))"
    by (simp add: lwl_register_statement_def)
next
  assume a: "lwl_msgs ms (bid + lwl_id_offset) = None \<and> sum_arg_bytes lwl_arg_lengths 0 = Inr n"
  from sum_arg_bytes_shift[of lwl_arg_lengths 0 n 1] a
  have s1: "sum_arg_bytes lwl_arg_lengths 1 = Inr (n + 1)" by simp
  show "\<exists>ms1.
            logfmt_register_statement ms error_count fp ln (Some bid) lwl_id_offset lwl_fmt
                lwl_num_arg_bytes lwl_arg_lengths num_arg_bytes_check st lwl_line_num
              = (if num_arg_bytes_check \<noteq> lwl_num_arg_bytes
                 then [Err_num_arg_bytes fp ln num_arg_bytes_check lwl_num_arg_bytes st]
                 else [],
                 Inr (ms1, error_count))
            \<and> get_metadata ms1 (bid + lwl_id_offset)
              = Some \<lparr>msg_id = bid + lwl_id_offset, fmt = lwl_fmt, arg_bytes = lwl_arg_lengths,
                       file_path = fp, line_num = lwl_line_num, lwl_statement = st,
                       num_arg_bytes = n\<rparr>"
    using a s1
    by (simp add: logfmt_register_statement_def add_lwl_msg_def LwlMsg_init_def get_metadata_def
        Let_def)
next
  assume g: "idx < buf_len
        \<and> get_args data_array buf_start_idx buf_len put_idx first_get (arg_bytes msg_meta) idx []
            = Inr (arg_values, idx')"
  then have "get_args data_array buf_start_idx buf_len put_idx first_get (arg_bytes msg_meta)
      idx [] = Inr (arg_values, idx')" and "idx < buf_len" by simp_all
  from get_args_consumes[OF this]
  show "\<exists>k. sum_arg_bytes (arg_bytes msg_meta) 0 = Inr k
               \<and> idx' = (idx + k) mod buf_len
               \<and> length arg_values = length (arg_bytes msg_meta)" by simp
qed


text \<open>
  A witness: the statement with format \<^verbatim>\<open>val=%d\<close> and no argument bytes, offered to
  both scanners with the catalog that holds id 1; and the argument read of message 2
  (one four-byte argument) from index 3 of a six-byte buffer.
\<close>

theorem C9_slot_count_mismatch_witness:
  "lwl_register_statement tick_catalog 0 ''app.c'' 9 (Some 1) 1 ''val=%d'' [] ''val'' 3
       = ([Err_fmt_args ''app.c'' 9 ''val=%d'' []], Inr (tick_catalog, 0 + 1))
   \<and> (\<exists>ms1.
         logfmt_register_statement tick_catalog 0 ''app.c'' 9 (Some 1) 1 ''val=%d'' 0 [] 0
             ''val'' 3
           = (if (0::nat) \<noteq> 0 then [Err_num_arg_bytes ''app.c'' 9 0 0 ''val''] else [],
              Inr (ms1, 0))
         \<and> get_metadata ms1 (1 + 1)
           = Some \<lparr>msg_id = 1 + 1, fmt = ''val=%d'', arg_bytes = [], file_path = ''app.c'',
                    line_num = 3, lwl_statement = ''val'', num_arg_bytes = 0\<rparr>)
   \<and> get_args (replicate 16 0 @ [0x07, 0x01, 0x02, 0x00, 0x00, 0x00]) 16 6 1 False
         (arg_bytes msg_val) 3 [] = Inr ([7], 1)
   \<and> (\<exists>k. sum_arg_bytes (arg_bytes msg_val) 0 = Inr k \<and> 1 = (3 + k) mod 6
          \<and> length [7::nat] = length (arg_bytes msg_val))"
proof -
  have a: "get_num_fmt_params ''val=%d'' \<noteq> length ([]::string)"
    by (simp add: get_num_fmt_params_def)
  have b: "lwl_msgs tick_catalog (1 + 1) = None \<and> sum_arg_bytes [] 0 = Inr 0"
    by (simp add: catalog_simps)
  have c: "(3::nat) < 6
     \<and> get_args (replicate 16 0 @ [0x07, 0x01, 0x02, 0x00, 0x00, 0x00]) 16 6 1 False
         (arg_bytes msg_val) 3 [] = Inr ([7], 1)"
    by (simp add: catalog_simps get_data_circ_def nth_append)
  from C9_slot_count_mismatch[where lwl_fmt = "''val=%d''" and lwl_arg_bytes = "[]"
      and ms = tick_catalog and error_count = 0 and fp = "''app.c''" and ln = 9
      and lwl_bid = "Some 1" and lwl_id_offset = 1 and st = "''val''" and lwl_line_num = 3
      and bid = 1 and lwl_arg_lengths = "[]" and n = 0 and lwl_num_arg_bytes = 0
      and num_arg_bytes_check = 0
      and data_array = "replicate 16 0 @ [0x07, 0x01, 0x02, 0x00, 0x00, 0x00]"
      and buf_start_idx = 16 and buf_len = 6 and put_idx = 1 and first_get = False
      and msg_meta = msg_val and idx = 3 and arg_values = "[7]" and idx' = 1] a b c
  show ?thesis by blast
qed


section \<open>Claim C10\<close>

text \<open>
  A log section that declares the length 0 is rejected as every log section below 20
  bytes is, and then \<open>idx\<close> advances by 0: the run meets the same header again, so no
  run over it returns.
\<close>

lemma zero_length_log_section_loops:
  assumes "process_loop py_format g_swab fd ms data_array local_g_swab idx out = Some r"
  shows "\<not> (g_swab = False \<and> data_array = [0x01, 0x00, 0x0d, 0xf0, 0x00, 0x00, 0x00, 0x00]
            \<and> idx = 0)"
  using assms
proof (induction arbitrary: rule: process_loop.raw_induct[rotated 1, consumes 1])
  case (1 process_loop py_format g_swab fd ms data_array local_g_swab idx out r)
  show ?case
  proof
    assume a: "g_swab = False \<and> data_array = [0x01, 0x00, 0x0d, 0xf0, 0x00, 0x00, 0x00, 0x00]
            \<and> idx = 0"
    with 1(2) have "process_loop py_format False fd ms data_array local_g_swab 0
        (out @ [Rule, Text ''LWL'', Rule, Err_lwl_size 0]) = Some r"
      by (simp add: read_magic_def get_data_def magic_simps dispatch_section_def
          LwlPrinter_pretty_print_def)
    from 1(1)[OF this] a show False by simp
  qed
qed

text \<open>
  C10: a log section whose length is below 20 is rejected by
  \<^verbatim>\<open>LwlPrinter.pretty_print\<close> with the insufficient-buffer-size error, whatever the data
  holds (so also when \<open>buf_len + 16 = section_len\<close> and \<open>put_idx < buf_len\<close>): the
  output is the section banner and that error, no message is decoded and nothing is
  raised. After the rejection of a section of non-zero length, \<^verbatim>\<open>process_data\<close> frames
  what follows at \<open>idx + section_len\<close>, with those four lines added to the output:
  at the end of the blob the run returns True with the whole blob consumed; a rest
  of fewer than 8 bytes is reported as a short header at that index and the run returns
  False; a trailer section that ends the blob is dispatched, its end marker printed
  and True returned; and in general the run is the run from \<open>idx + section_len\<close>.
  At a section of length 0 this fails: \<open>idx\<close> advances by 0, the same section is
  framed and rejected again, and \<^verbatim>\<open>process_data\<close> never returns. It is the missing
  lower bound on the section length in \<^verbatim>\<open>process_data\<close> (claims C4 and C5).
\<close>

theorem C10_short_log_section_rejected:
  assumes "section_len < 20"
  shows "LwlPrinter_pretty_print py_format g_swab data_array ms section_offset section_len
           = Some ([Rule, Text ''LWL'', Rule, Err_lwl_size section_len], Inr ())
     \<and> (0 < section_len
          \<and> idx + 8 \<le> length data_array
          \<and> get_data g_swab data_array idx 4 = Inr MOD_MAGIC_LWL
          \<and> get_data g_swab data_array (idx + 4) 4 = Inr section_len
          \<and> idx + section_len \<le> length data_array
        \<longrightarrow> (idx + section_len = length data_array
             \<longrightarrow> process_loop py_format g_swab fd ms data_array local_g_swab idx out
                 = Some (out @ [Rule, Text ''LWL'', Rule, Err_lwl_size section_len],
                         length data_array, Inr True))
          \<and> (idx + section_len < length data_array
               \<and> length data_array < idx + section_len + 8
             \<longrightarrow> process_loop py_format g_swab fd ms data_array local_g_swab idx out
                 = Some (out @ [Rule, Text ''LWL'', Rule, Err_lwl_size section_len,
                                Err_header (idx + section_len) (length data_array)],
                         idx + section_len, Inr False))
          \<and> (idx + section_len + 8 \<le> length data_array
               \<and> get_data g_swab data_array (idx + section_len) 4 = Inr MOD_MAGIC_TRAILER
               \<and> get_data g_swab data_array (idx + section_len + 4) 4 = Inr trailer_len
               \<and> 0 < trailer_len
               \<and> idx + section_len + trailer_len = length data_array
             \<longrightarrow> process_loop py_format g_swab fd ms data_array local_g_swab idx out
                 = Some (out @ [Rule, Text ''LWL'', Rule, Err_lwl_size section_len,
                                Rule, Text ''End of fault data'', Rule],
                         length data_array, Inr True))
          \<and> process_loop py_format g_swab fd ms data_array local_g_swab idx out
              = process_loop py_format g_swab fd ms data_array local_g_swab (idx + section_len)
                  (out @ [Rule, Text ''LWL'', Rule, Err_lwl_size section_len]))
     \<and> get_data False [0x01, 0x00, 0x0d, 0xf0, 0x00, 0x00, 0x00, 0x00] 0 4 = Inr MOD_MAGIC_LWL
     \<and> get_data False [0x01, 0x00, 0x0d, 0xf0, 0x00, 0x00, 0x00, 0x00] 4 4 = Inr 0
     \<and> process_data py_format False fd ms [0x01, 0x00, 0x0d, 0xf0, 0x00, 0x00, 0x00, 0x00]
         = None"
proof -
  let ?L = "[Rule, Text ''LWL'', Rule, Err_lwl_size section_len]"
  have pp: "LwlPrinter_pretty_print py_format g_swab data_array ms section_offset section_len
           = Some (?L, Inr ())"
    for section_offset
    using assms by (simp add: LwlPrinter_pretty_print_def)
  have step: "process_loop py_format g_swab fd ms data_array local_g_swab idx out
            = process_loop py_format g_swab fd ms data_array local_g_swab (idx + section_len)
                (out @ ?L)"
    if a: "idx + 8 \<le> length data_array"
      "get_data g_swab data_array idx 4 = Inr MOD_MAGIC_LWL"
      "get_data g_swab data_array (idx + 4) 4 = Inr section_len"
      "idx + section_len \<le> length data_array"
  proof -
    from a(1) have lt: "idx < length data_array" by simp
    show ?thesis
      using a lt pp[of idx]
      by (subst process_loop.simps) (simp add: read_magic_def magic_simps dispatch_section_def)
  qed
  have at_end: "process_loop py_format g_swab fd ms data_array local_g_swab
        (idx + section_len) (out @ ?L) = Some (out @ ?L, length data_array, Inr True)"
    if "idx + section_len = length data_array"
    using that by (subst process_loop.simps) simp
  have short: "process_loop py_format g_swab fd ms data_array local_g_swab
        (idx + section_len) (out @ ?L)
      = Some (out @ [Rule, Text ''LWL'', Rule, Err_lwl_size section_len,
                     Err_header (idx + section_len) (length data_array)],
              idx + section_len, Inr False)"
    if "idx + section_len < length data_array" "length data_array < idx + section_len + 8"
    using that by (subst process_loop.simps) simp
  have trailer: "process_loop py_format g_swab fd ms data_array local_g_swab
        (idx + section_len) (out @ ?L)
      = Some (out @ [Rule, Text ''LWL'', Rule, Err_lwl_size section_len,
                     Rule, Text ''End of fault data'', Rule],
              length data_array, Inr True)"
    if t: "idx + section_len + 8 \<le> length data_array"
      "get_data g_swab data_array (idx + section_len) 4 = Inr MOD_MAGIC_TRAILER"
      "get_data g_swab data_array (idx + section_len + 4) 4 = Inr trailer_len"
      "0 < trailer_len"
      "idx + section_len + trailer_len = length data_array"
  proof -
    from t(1) have lt: "idx + section_len < length data_array" by simp
    have last: "process_loop py_format g_swab fd ms data_array local_g_swab
        (idx + section_len + trailer_len)
        ((out @ ?L) @ [Rule, Text ''End of fault data'', Rule])
      = Some ((out @ ?L) @ [Rule, Text ''End of fault data'', Rule],
              length data_array, Inr True)"
      using t(5) by (subst process_loop.simps) simp
    have "process_loop py_format g_swab fd ms data_array local_g_swab
        (idx + section_len) (out @ ?L)
      = process_loop py_format g_swab fd ms data_array local_g_swab
          (idx + section_len + trailer_len)
          ((out @ ?L) @ [Rule, Text ''End of fault data'', Rule])"
      using t lt
      by (subst process_loop.simps)
        (simp add: read_magic_def magic_simps dispatch_section_def del: append_assoc)
    with last show ?thesis by simp
  qed
  have loops: "process_data py_format False fd ms
      [0x01, 0x00, 0x0d, 0xf0, 0x00, 0x00, 0x00, 0x00] = None"
    using zero_length_log_section_loops[of py_format False fd ms
        "[0x01, 0x00, 0x0d, 0xf0, 0x00, 0x00, 0x00, 0x00]" None 0 "[]"]
    by (cases "process_data py_format False fd ms
                 [0x01, 0x00, 0x0d, 0xf0, 0x00, 0x00, 0x00, 0x00]")
      (auto simp: process_data_def)
  have hd: "get_data False [0x01, 0x00, 0x0d, 0xf0, 0x00, 0x00, 0x00, 0x00] 0 4
        = Inr MOD_MAGIC_LWL"
    "get_data False [0x01, 0x00, 0x0d, 0xf0, 0x00, 0x00, 0x00, 0x00] 4 4 = Inr 0"
    by (simp_all add: get_data_def magic_simps)
  show ?thesis
    using pp[of section_offset] step at_end short trailer loops hd
    by (intro conjI impI) simp_all
qed

text \<open>
  A witness: a log section of 19 bytes whose header would pass the two documented checks
  (\<open>buf_len = 3\<close>, \<open>put_idx = 1\<close>), followed by the trailer. The run prints the error,
  then frames the trailer at index 19, prints the end marker, and returns True having
  consumed the 27 bytes.
\<close>

theorem C10_short_log_section_rejected_witness:
  "get_data False short_log_blob 8 4 = Inr 3 \<and> get_data False short_log_blob 12 4 = Inr 1
   \<and> 3 + 16 = (19::nat) \<and> (1::nat) < 3
   \<and> LwlPrinter_pretty_print format_d False short_log_blob tick_catalog 0 19
       = Some ([Rule, Text ''LWL'', Rule, Err_lwl_size 19], Inr ())
   \<and> process_data format_d False FaultData_init tick_catalog short_log_blob
       = Some ([Rule, Text ''LWL'', Rule, Err_lwl_size 19, Rule, Text ''End of fault data'', Rule],
               27, Inr True)"
proof -
  have h: "0 < (19::nat)
          \<and> 0 + 8 \<le> length short_log_blob
          \<and> get_data False short_log_blob 0 4 = Inr MOD_MAGIC_LWL
          \<and> get_data False short_log_blob (0 + 4) 4 = Inr 19
          \<and> 0 + 19 \<le> length short_log_blob"
    by (simp add: short_log_blob_def get_data_def magic_simps)
  have t: "0 + 19 + 8 \<le> length short_log_blob
          \<and> get_data False short_log_blob (0 + 19) 4 = Inr MOD_MAGIC_TRAILER
          \<and> get_data False short_log_blob (0 + 19 + 4) 4 = Inr 8
          \<and> 0 < (8::nat)
          \<and> 0 + 19 + 8 = length short_log_blob"
    by (simp add: short_log_blob_def get_data_def magic_simps)
  have s: "(19::nat) < 20" by simp
  note T = C10_short_log_section_rejected[OF s, where py_format = format_d and g_swab = False
      and data_array = short_log_blob and ms = tick_catalog and section_offset = 0 and idx = 0
      and fd = FaultData_init and local_g_swab = None and out = "[]" and trailer_len = 8]
  from T have pp: "LwlPrinter_pretty_print format_d False short_log_blob tick_catalog 0 19
       = Some ([Rule, Text ''LWL'', Rule, Err_lwl_size 19], Inr ())"
    by (rule conjunct1)
  from T h t
  have "process_loop format_d False FaultData_init tick_catalog short_log_blob None 0 []
      = Some ([] @ [Rule, Text ''LWL'', Rule, Err_lwl_size 19,
                    Rule, Text ''End of fault data'', Rule],
              length short_log_blob, Inr True)"
    by blast
  then have "process_data format_d False FaultData_init tick_catalog short_log_blob
      = Some ([Rule, Text ''LWL'', Rule, Err_lwl_size 19, Rule, Text ''End of fault data'', Rule],
              27, Inr True)"
    by (simp add: process_data_def short_log_blob_def)
  with pp show ?thesis
    by (simp add: short_log_blob_def get_data_def)
qed

end
